theory Spec2Isabelle
  imports Main "HOL-Library.Word" "HOL-Library.Monad_Syntax"
begin

unbundle bit_operations_syntax

section \<open>Fixed-width words and constants\<close>

text \<open>
  \<open>Word16\<close> and \<open>Word32\<close> are the exact-width two's-complement types of the
  basic-operator library. \<open>sint\<close> reads the signed value. The constants are those of
  the operators' header comments: results are "set at +32767 / -32768" resp.
  "+2147483647 / -2147483648".
\<close>

type_synonym Word16 = "16 word"
type_synonym Word32 = "32 word"

definition MAX_16 :: Word16 where "MAX_16 = 0x7fff"
definition MIN_16 :: Word16 where "MIN_16 = 0x8000"
definition MAX_32 :: Word32 where "MAX_32 = 0x7fffffff"
definition MIN_32 :: Word32 where "MIN_32 = 0x80000000"

section \<open>basop32.c: values computed by the operators\<close>

text \<open>\<open>extract_l\<close>: \<open>(Word16) L_var1\<close>, the 16 LSB.\<close>

definition extract_l :: "Word32 \<Rightarrow> Word16" where
  "extract_l L_var1 = ucast L_var1"

text \<open>\<open>extract_h\<close>: \<open>(Word16) (L_var1 >> 16)\<close>, the 16 MSB.\<close>

definition extract_h :: "Word32 \<Rightarrow> Word16" where
  "extract_h L_var1 = ucast (drop_bit 16 L_var1)"

text \<open>\<open>L_deposit_l\<close>: \<open>(Word32) var1\<close>, sign extended.\<close>

definition L_deposit_l :: "Word16 \<Rightarrow> Word32" where
  "L_deposit_l var1 = scast var1"

text \<open>\<open>L_deposit_h\<close>: \<open>(Word32) var1 << 16\<close>.\<close>

definition L_deposit_h :: "Word16 \<Rightarrow> Word32" where
  "L_deposit_h var1 = push_bit 16 (scast var1)"

text \<open>
  \<open>saturate\<close>: the pair is \<open>(var_out, Overflow)\<close>, the function's two locals at
  the point where it calls \<open>BASOP_CHECK(Overflow, 0)\<close>. \<open>Overflow\<close> is declared
  \<open>int Overflow = 0\<close> inside the function and hides the file-level flag of the same name.
\<close>

definition saturate_loc :: "Word32 \<Rightarrow> Word16 \<times> bool" where
  "saturate_loc L_var1 =
     (if 0x00007fff <s L_var1 then (MAX_16, True)
      else if L_var1 <s 0xffff8000 then (MIN_16, True)
      else (extract_l L_var1, False))"

definition saturate :: "Word32 \<Rightarrow> Word16" where
  "saturate L_var1 = fst (saturate_loc L_var1)"

text \<open>\<open>add\<close>: \<open>L_sum = (Word32) var1 + var2; var_out = saturate (L_sum)\<close>.\<close>

definition add :: "Word16 \<Rightarrow> Word16 \<Rightarrow> Word16" where
  "add var1 var2 = saturate (scast var1 + scast var2)"

text \<open>\<open>sub\<close>: \<open>L_diff = (Word32) var1 - var2; var_out = saturate (L_diff)\<close>.\<close>

definition sub :: "Word16 \<Rightarrow> Word16 \<Rightarrow> Word16" where
  "sub var1 var2 = saturate (scast var1 - scast var2)"

text \<open>
  The count handed to the opposite shift: \<open>if (var2 < -16) var2 = -16; var2 = -var2;\<close>
  (and the same with 32). It is never negative, which is why the mutual calls end.
\<close>

lemma neg_count16:
  fixes var2 :: Word16
  assumes "var2 <s 0"
  shows "\<not> (- (if var2 <s - 16 then - 16 else var2)) <s 0"
proof (cases "var2 <s - 16")
  case True
  then show ?thesis by (simp add: word_sless_alt)
next
  case False
  have "- 16 \<le> sint var2" "sint var2 < 0"
    using False assms by (simp_all add: word_sless_alt)
  then have "sint (- var2) = - sint var2"
    by (simp add: sint_word_ariths signed_take_bit_int_eq_self)
  with False \<open>sint var2 < 0\<close> show ?thesis
    by (simp add: word_sless_alt)
qed

lemma neg_count32_le:
  fixes var2 :: Word16
  assumes "var2 \<le>s 0"
  shows "\<not> (- (if var2 <s - 32 then - 32 else var2)) <s 0"
proof (cases "var2 <s - 32")
  case True
  then show ?thesis by (simp add: word_sless_alt)
next
  case False
  have "- 32 \<le> sint var2" "sint var2 \<le> 0"
    using False assms by (simp_all add: word_sless_alt word_sle_eq)
  then have "sint (- var2) = - sint var2"
    by (simp add: sint_word_ariths signed_take_bit_int_eq_self)
  with False \<open>sint var2 \<le> 0\<close> show ?thesis
    by (simp add: word_sless_alt)
qed

lemma neg_count32_less:
  fixes var2 :: Word16
  assumes "var2 <s 0"
  shows "\<not> (- (if var2 <s - 32 then - 32 else var2)) \<le>s 0"
proof (cases "var2 <s - 32")
  case True
  then show ?thesis by (simp add: word_sle_eq)
next
  case False
  have "- 32 \<le> sint var2" "sint var2 < 0"
    using False assms by (simp_all add: word_sless_alt)
  then have "sint (- var2) = - sint var2"
    by (simp add: sint_word_ariths signed_take_bit_int_eq_self)
  with False \<open>sint var2 < 0\<close> show ?thesis
    by (simp add: word_sle_eq)
qed

text \<open>
  \<open>shl\<close> and \<open>shr\<close> call each other for a negative count. The pairs are
  \<open>(var_out, Overflow)\<close> for \<open>shl\<close> and \<open>(var_out, Overflow2)\<close> for \<open>shr\<close>:
  the value returned and the local flag handed to \<open>BASOP_CHECK\<close>
  (\<open>Overflow2\<close> is assigned under \<open>BASOP_OVERFLOW2\<close>).

  In \<open>shl\<close>, \<open>(Word32) 1 << var2\<close> is written \<open>push_bit (unat var2) 1\<close>. For
  \<open>var2 > 30\<close> the C shift is not defined; what it yields cannot reach the result,
  which for \<open>var2 > 15\<close> is the saturated value when \<open>var1 \<noteq> 0\<close> and \<open>0 * x = 0\<close>
  otherwise.

  In \<open>shr\<close>, \<open>~((~var1) >> var2)\<close> is evaluated on a negative \<open>var1\<close>, so \<open>~var1\<close>
  is non-negative and the shift is the same in 16 and in 32 bits.
\<close>

function shl_loc :: "Word16 \<Rightarrow> Word16 \<Rightarrow> Word16 \<times> bool"
  and shr_loc :: "Word16 \<Rightarrow> Word16 \<Rightarrow> Word16 \<times> bool"
where
  "shl_loc var1 var2 =
     (if var2 <s 0 then
        (fst (shr_loc var1 (- (if var2 <s - 16 then - 16 else var2))), False)
      else
        (let result = (scast var1 :: Word32) * push_bit (unat var2) 1 in
         if (15 <s var2 \<and> var1 \<noteq> 0) \<or> result \<noteq> scast (ucast result :: Word16)
         then (if 0 <s var1 then MAX_16 else MIN_16, True)
         else (extract_l result, False)))"
| "shr_loc var1 var2 =
     (if var2 <s 0 then
        (fst (shl_loc var1 (- (if var2 <s - 16 then - 16 else var2))), False)
      else if 15 \<le>s var2 then
        (if var1 <s 0 then - 1 else 0, 15 <s var2)
      else if var1 <s 0 then (NOT (drop_bit (unat var2) (NOT var1)), False)
      else (drop_bit (unat var2) var1, False))"
  by pat_completeness auto
termination
  by (relation
      "measure (\<lambda>x. case x of Inl (v1, v2) \<Rightarrow> (if v2 <s 0 then 1 else 0)
                           | Inr (v1, v2) \<Rightarrow> (if v2 <s 0 then 1 else 0))")
    (simp_all add: neg_count16)

declare shl_loc.simps [simp del] shr_loc.simps [simp del]

definition shl :: "Word16 \<Rightarrow> Word16 \<Rightarrow> Word16" where
  "shl var1 var2 = fst (shl_loc var1 var2)"

definition shr :: "Word16 \<Rightarrow> Word16 \<Rightarrow> Word16" where
  "shr var1 var2 = fst (shr_loc var1 var2)"

text \<open>
  \<open>L_mult\<close>: \<open>(L_var_out, Overflow)\<close> at the call of \<open>BASOP_CHECK\<close>.
\<close>

definition L_mult_loc :: "Word16 \<Rightarrow> Word16 \<Rightarrow> Word32 \<times> bool" where
  "L_mult_loc var1 var2 =
     (let L_var_out = (scast var1 :: Word32) * scast var2 in
      if L_var_out \<noteq> 0x40000000 then (L_var_out * 2, False)
      else (MAX_32, True))"

definition L_mult :: "Word16 \<Rightarrow> Word16 \<Rightarrow> Word32" where
  "L_mult var1 var2 = fst (L_mult_loc var1 var2)"

text \<open>
  \<open>L_add\<close> and \<open>L_sub\<close>: the sum is formed in 32 bits first (it wraps), then the sign
  bits are compared.
\<close>

definition L_add_loc :: "Word32 \<Rightarrow> Word32 \<Rightarrow> Word32 \<times> bool" where
  "L_add_loc L_var1 L_var2 =
     (let L_var_out = L_var1 + L_var2 in
      if (L_var1 XOR L_var2) AND MIN_32 = 0 \<and> (L_var_out XOR L_var1) AND MIN_32 \<noteq> 0
      then (if L_var1 <s 0 then MIN_32 else MAX_32, True)
      else (L_var_out, False))"

definition L_add :: "Word32 \<Rightarrow> Word32 \<Rightarrow> Word32" where
  "L_add L_var1 L_var2 = fst (L_add_loc L_var1 L_var2)"

definition L_sub_loc :: "Word32 \<Rightarrow> Word32 \<Rightarrow> Word32 \<times> bool" where
  "L_sub_loc L_var1 L_var2 =
     (let L_var_out = L_var1 - L_var2 in
      if (L_var1 XOR L_var2) AND MIN_32 \<noteq> 0 \<and> (L_var_out XOR L_var1) AND MIN_32 \<noteq> 0
      then (if L_var1 <s 0 then MIN_32 else MAX_32, True)
      else (L_var_out, False))"

definition L_sub :: "Word32 \<Rightarrow> Word32 \<Rightarrow> Word32" where
  "L_sub L_var1 L_var2 = fst (L_sub_loc L_var1 L_var2)"

text \<open>\<open>L_mac\<close>, \<open>L_msu\<close>: \<open>L_mult\<close> followed by \<open>L_add\<close> resp. \<open>L_sub\<close>.\<close>

definition L_mac :: "Word32 \<Rightarrow> Word16 \<Rightarrow> Word16 \<Rightarrow> Word32" where
  "L_mac L_var3 var1 var2 = L_add L_var3 (L_mult var1 var2)"

definition L_msu :: "Word32 \<Rightarrow> Word16 \<Rightarrow> Word16 \<Rightarrow> Word32" where
  "L_msu L_var3 var1 var2 = L_sub L_var3 (L_mult var1 var2)"

text \<open>\<open>L_mult0\<close>, \<open>L_mac0\<close>: the product without the left shift.\<close>

definition L_mult0 :: "Word16 \<Rightarrow> Word16 \<Rightarrow> Word32" where
  "L_mult0 var1 var2 = scast var1 * scast var2"

definition L_mac0 :: "Word32 \<Rightarrow> Word16 \<Rightarrow> Word16 \<Rightarrow> Word32" where
  "L_mac0 L_var3 var1 var2 = L_add L_var3 (L_mult0 var1 var2)"

text \<open>\<open>L_msu0\<close>: \<open>L_mult0\<close> followed by \<open>L_sub\<close>.\<close>

definition L_msu0 :: "Word32 \<Rightarrow> Word16 \<Rightarrow> Word16 \<Rightarrow> Word32" where
  "L_msu0 L_var3 var1 var2 = L_sub L_var3 (L_mult0 var1 var2)"

text \<open>
  \<open>mac_r\<close>, \<open>msu_r\<close>: \<open>L_mac\<close> resp. \<open>L_msu\<close>, then
  \<open>L_add (L_var3, (Word32) 0x00008000L)\<close>, then \<open>extract_h\<close>.
\<close>

definition mac_r :: "Word32 \<Rightarrow> Word16 \<Rightarrow> Word16 \<Rightarrow> Word16" where
  "mac_r L_var3 var1 var2 = extract_h (L_add (L_mac L_var3 var1 var2) 0x00008000)"

definition msu_r :: "Word32 \<Rightarrow> Word16 \<Rightarrow> Word16 \<Rightarrow> Word16" where
  "msu_r L_var3 var1 var2 = extract_h (L_add (L_msu L_var3 var1 var2) 0x00008000)"

text \<open>\<open>i_mult\<close> (without \<open>ORIGINAL_G7231\<close>): \<open>c = a * b; return saturate(c)\<close>.\<close>

definition i_mult :: "Word16 \<Rightarrow> Word16 \<Rightarrow> Word16" where
  "i_mult a b = saturate (scast a * scast b)"

text \<open>
  \<open>L_shl\<close> and \<open>L_shr\<close>. The loop of \<open>L_shl\<close>,
  \<open>for (; var2 > 0; var2--)\<close>, runs on the remaining count; it leaves through
  \<open>break\<close> with the saturated value and \<open>Overflow = 1\<close>.
\<close>

fun L_shl_loop :: "nat \<Rightarrow> Word32 \<Rightarrow> Word32 \<Rightarrow> Word32 \<times> bool" where
  "L_shl_loop 0 L_var1 L_var_out = (L_var_out, False)"
| "L_shl_loop (Suc n) L_var1 L_var_out =
     (if 0x3fffffff <s L_var1 then (MAX_32, True)
      else if L_var1 <s 0xc0000000 then (MIN_32, True)
      else L_shl_loop n (L_var1 * 2) (L_var1 * 2))"

function L_shl_loc :: "Word32 \<Rightarrow> Word16 \<Rightarrow> Word32 \<times> bool"
  and L_shr_loc :: "Word32 \<Rightarrow> Word16 \<Rightarrow> Word32 \<times> bool"
where
  "L_shl_loc L_var1 var2 =
     (if var2 \<le>s 0 then
        (fst (L_shr_loc L_var1 (- (if var2 <s - 32 then - 32 else var2))), False)
      else L_shl_loop (unat var2) L_var1 0)"
| "L_shr_loc L_var1 var2 =
     (if var2 <s 0 then
        (fst (L_shl_loc L_var1 (- (if var2 <s - 32 then - 32 else var2))), False)
      else if 31 \<le>s var2 then
        (if L_var1 <s 0 then - 1 else 0, 31 <s var2)
      else if L_var1 <s 0 then (NOT (drop_bit (unat var2) (NOT L_var1)), False)
      else (drop_bit (unat var2) L_var1, False))"
  by pat_completeness auto
termination
  by (relation
      "measure (\<lambda>x. case x of Inl (v1, v2) \<Rightarrow> (if v2 \<le>s 0 then 1 else 0)
                           | Inr (v1, v2) \<Rightarrow> (if v2 <s 0 then 1 else 0))")
    (simp_all add: neg_count32_le neg_count32_less)

declare L_shl_loc.simps [simp del] L_shr_loc.simps [simp del]

definition L_shl :: "Word32 \<Rightarrow> Word16 \<Rightarrow> Word32" where
  "L_shl L_var1 var2 = fst (L_shl_loc L_var1 var2)"

definition L_shr :: "Word32 \<Rightarrow> Word16 \<Rightarrow> Word32" where
  "L_shr L_var1 var2 = fst (L_shr_loc L_var1 var2)"

text \<open>
  \<open>norm_s\<close>. The loop \<open>for (var_out = 0; var1 < 0x4000; var_out++) var1 <<= 1;\<close>
  has no bound of its own: on \<open>var1 = 0\<close> it would not end. \<open>None\<close> stands for
  a run that does not return.
\<close>

partial_function (option) norm_s_loop :: "Word16 \<Rightarrow> Word16 \<Rightarrow> Word16 option" where
  "norm_s_loop var1 var_out =
     (if var1 <s 0x4000 then norm_s_loop (push_bit 1 var1) (var_out + 1)
      else Some var_out)"

declare norm_s_loop.simps [code]

definition norm_s :: "Word16 \<Rightarrow> Word16 option" where
  "norm_s var1 =
     (if var1 = 0 then Some 0
      else if var1 = 0xffff then Some 15
      else norm_s_loop (if var1 <s 0 then NOT var1 else var1) 0)"

section \<open>basop32.c: the overflow diagnostics\<close>

text \<open>
  The file-level variables of basop32.c, with \<open>BASOP_OVERFLOW2\<close> defined,
  \<open>HIDE_UNUSED_BASOP\<close> not, and \<open>WMOPS\<close> 0: the configuration in which
  \<open>BASOP_CHECK\<close> is the function defined in this file and the operators keep no
  operation counters. \<open>Flag\<close> is \<open>int\<close>, and an \<open>int\<close> has 32 bits; it is a
  \<open>Word32\<close> here, so that \<open>overflow_count++\<close> at the largest value wraps around to
  the smallest, as the 32-bit sums of \<open>L_add\<close> do.
\<close>

record basop_globals =
  Carry :: Word32
  Overflow :: Word32
  Overflow2 :: Word32
  overflow_count :: Word32
  overflow_warning_enable :: Word32
  overflow_warning_disable_counter :: Word32
  overflow_error_enable :: Word32

text \<open>The initialisers of the declarations.\<close>

definition basop_init :: basop_globals where
  "basop_init = \<lparr> Carry = 0, Overflow = 0, Overflow2 = 0, overflow_count = 0,
     overflow_warning_enable = 1, overflow_warning_disable_counter = 0,
     overflow_error_enable = 0 \<rparr>"

text \<open>
  \<open>BASOP_CHECK(int Overflow, int Overflow2)\<close>: its parameters are passed by value, so
  the assignments \<open>Overflow = 0\<close> and \<open>Overflow2 = 0\<close> in its body change the
  parameters only. What remains is the counter; \<open>printStack\<close> is called only where
  \<open>PRINT_STACK_OVERFLOW\<close> and its like are defined, which is under \<open>WMOPS\<close>.
\<close>

definition BASOP_CHECK :: "bool \<Rightarrow> bool \<Rightarrow> basop_globals \<Rightarrow> basop_globals" where
  "BASOP_CHECK Overflow_arg Overflow2_arg g =
     (if overflow_warning_enable g \<noteq> 0 then
        (let g1 = (if Overflow_arg then g\<lparr>overflow_count := overflow_count g + 1\<rparr> else g)
         in (if Overflow2_arg then g1\<lparr>overflow_count := overflow_count g1 + 1\<rparr> else g1))
      else g)"

text \<open>
  The globals after a call of each operator. A call \<open>BASOP_CHECK(0, 0)\<close> is written
  as such; the calls made inside \<open>extract_l\<close> are of that form.
\<close>

definition extract_l_globals :: "basop_globals \<Rightarrow> basop_globals" where
  "extract_l_globals g = BASOP_CHECK False False g"

definition extract_h_globals :: "basop_globals \<Rightarrow> basop_globals" where
  "extract_h_globals g = BASOP_CHECK False False g"

definition saturate_globals :: "Word32 \<Rightarrow> basop_globals \<Rightarrow> basop_globals" where
  "saturate_globals L_var1 g =
     BASOP_CHECK (snd (saturate_loc L_var1)) False
       (if snd (saturate_loc L_var1) then g else extract_l_globals g)"

definition add_globals :: "Word16 \<Rightarrow> Word16 \<Rightarrow> basop_globals \<Rightarrow> basop_globals" where
  "add_globals var1 var2 g = saturate_globals (scast var1 + scast var2) g"

definition sub_globals :: "Word16 \<Rightarrow> Word16 \<Rightarrow> basop_globals \<Rightarrow> basop_globals" where
  "sub_globals var1 var2 g = saturate_globals (scast var1 - scast var2) g"

function shl_globals :: "Word16 \<Rightarrow> Word16 \<Rightarrow> basop_globals \<Rightarrow> basop_globals"
  and shr_globals :: "Word16 \<Rightarrow> Word16 \<Rightarrow> basop_globals \<Rightarrow> basop_globals"
where
  "shl_globals var1 var2 g =
     BASOP_CHECK (snd (shl_loc var1 var2)) False
       (if var2 <s 0 then shr_globals var1 (- (if var2 <s - 16 then - 16 else var2)) g
        else if snd (shl_loc var1 var2) then g else extract_l_globals g)"
| "shr_globals var1 var2 g =
     BASOP_CHECK False (snd (shr_loc var1 var2))
       (if var2 <s 0 then shl_globals var1 (- (if var2 <s - 16 then - 16 else var2)) g
        else g)"
  by pat_completeness auto
termination
  by (relation
      "measure (\<lambda>x. case x of Inl (v1, v2, g) \<Rightarrow> (if v2 <s 0 then 1 else 0)
                           | Inr (v1, v2, g) \<Rightarrow> (if v2 <s 0 then 1 else 0))")
    (simp_all add: neg_count16)

declare shl_globals.simps [simp del] shr_globals.simps [simp del]

definition L_mult_globals :: "Word16 \<Rightarrow> Word16 \<Rightarrow> basop_globals \<Rightarrow> basop_globals" where
  "L_mult_globals var1 var2 g = BASOP_CHECK (snd (L_mult_loc var1 var2)) False g"

definition L_add_globals :: "Word32 \<Rightarrow> Word32 \<Rightarrow> basop_globals \<Rightarrow> basop_globals" where
  "L_add_globals L_var1 L_var2 g = BASOP_CHECK (snd (L_add_loc L_var1 L_var2)) False g"

definition L_sub_globals :: "Word32 \<Rightarrow> Word32 \<Rightarrow> basop_globals \<Rightarrow> basop_globals" where
  "L_sub_globals L_var1 L_var2 g = BASOP_CHECK (snd (L_sub_loc L_var1 L_var2)) False g"

definition L_mac_globals :: "Word32 \<Rightarrow> Word16 \<Rightarrow> Word16 \<Rightarrow> basop_globals \<Rightarrow> basop_globals" where
  "L_mac_globals L_var3 var1 var2 g =
     BASOP_CHECK False False
       (L_add_globals L_var3 (L_mult var1 var2) (L_mult_globals var1 var2 g))"

definition L_msu_globals :: "Word32 \<Rightarrow> Word16 \<Rightarrow> Word16 \<Rightarrow> basop_globals \<Rightarrow> basop_globals" where
  "L_msu_globals L_var3 var1 var2 g =
     BASOP_CHECK False False
       (L_sub_globals L_var3 (L_mult var1 var2) (L_mult_globals var1 var2 g))"

text \<open>\<open>i_mult\<close> ends in \<open>saturate\<close>; \<open>L_mult0\<close> calls \<open>BASOP_CHECK(0, 0)\<close>.\<close>

definition i_mult_globals :: "Word16 \<Rightarrow> Word16 \<Rightarrow> basop_globals \<Rightarrow> basop_globals" where
  "i_mult_globals a b g = saturate_globals (scast a * scast b) g"

definition L_mult0_globals :: "Word16 \<Rightarrow> Word16 \<Rightarrow> basop_globals \<Rightarrow> basop_globals" where
  "L_mult0_globals var1 var2 g = BASOP_CHECK False False g"

text \<open>
  \<open>L_mac0\<close>, \<open>L_msu0\<close>, \<open>mac_r\<close> and \<open>msu_r\<close> have no overflow variable of their
  own; what reaches \<open>BASOP_CHECK\<close> comes from the operators they call.
\<close>

definition L_mac0_globals :: "Word32 \<Rightarrow> Word16 \<Rightarrow> Word16 \<Rightarrow> basop_globals \<Rightarrow> basop_globals" where
  "L_mac0_globals L_var3 var1 var2 g =
     BASOP_CHECK False False
       (L_add_globals L_var3 (L_mult0 var1 var2) (L_mult0_globals var1 var2 g))"

definition L_msu0_globals :: "Word32 \<Rightarrow> Word16 \<Rightarrow> Word16 \<Rightarrow> basop_globals \<Rightarrow> basop_globals" where
  "L_msu0_globals L_var3 var1 var2 g =
     BASOP_CHECK False False
       (L_sub_globals L_var3 (L_mult0 var1 var2) (L_mult0_globals var1 var2 g))"

definition mac_r_globals :: "Word32 \<Rightarrow> Word16 \<Rightarrow> Word16 \<Rightarrow> basop_globals \<Rightarrow> basop_globals" where
  "mac_r_globals L_var3 var1 var2 g =
     BASOP_CHECK False False
       (extract_h_globals
          (L_add_globals (L_mac L_var3 var1 var2) 0x00008000
             (L_mac_globals L_var3 var1 var2 g)))"

definition msu_r_globals :: "Word32 \<Rightarrow> Word16 \<Rightarrow> Word16 \<Rightarrow> basop_globals \<Rightarrow> basop_globals" where
  "msu_r_globals L_var3 var1 var2 g =
     BASOP_CHECK False False
       (extract_h_globals
          (L_add_globals (L_msu L_var3 var1 var2) 0x00008000
             (L_msu_globals L_var3 var1 var2 g)))"

function L_shl_globals :: "Word32 \<Rightarrow> Word16 \<Rightarrow> basop_globals \<Rightarrow> basop_globals"
  and L_shr_globals :: "Word32 \<Rightarrow> Word16 \<Rightarrow> basop_globals \<Rightarrow> basop_globals"
where
  "L_shl_globals L_var1 var2 g =
     BASOP_CHECK (snd (L_shl_loc L_var1 var2)) False
       (if var2 \<le>s 0 then L_shr_globals L_var1 (- (if var2 <s - 32 then - 32 else var2)) g
        else g)"
| "L_shr_globals L_var1 var2 g =
     BASOP_CHECK False (snd (L_shr_loc L_var1 var2))
       (if var2 <s 0 then L_shl_globals L_var1 (- (if var2 <s - 32 then - 32 else var2)) g
        else g)"
  by pat_completeness auto
termination
  by (relation
      "measure (\<lambda>x. case x of Inl (v1, v2, g) \<Rightarrow> (if v2 \<le>s 0 then 1 else 0)
                           | Inr (v1, v2, g) \<Rightarrow> (if v2 <s 0 then 1 else 0))")
    (simp_all add: neg_count32_le neg_count32_less)

declare L_shl_globals.simps [simp del] L_shr_globals.simps [simp del]

text \<open>
  \<open>div_s\<close>. \<open>None\<close> is \<open>abort()\<close>. The loop state is \<open>(var_out, L_num)\<close> with the
  globals, which the calls of \<open>L_sub\<close> and \<open>add\<close> inside the loop pass through
  \<open>BASOP_CHECK\<close>; the first argument counts the iterations left of the 15. The two
  calls of \<open>L_deposit_l\<close> end in \<open>BASOP_CHECK(0, 0)\<close>, which leaves the globals as
  they are (with both arguments 0 no branch of it is taken), so they are not threaded
  through them.
\<close>

fun div_s_loop ::
  "nat \<Rightarrow> Word32 \<Rightarrow> Word16 \<times> Word32 \<times> basop_globals \<Rightarrow> Word16 \<times> Word32 \<times> basop_globals"
where
  "div_s_loop 0 L_denom s = s"
| "div_s_loop (Suc k) L_denom (var_out, L_num, g) =
     (let var_out = push_bit 1 var_out;
          L_num = push_bit 1 L_num
      in if L_denom \<le>s L_num
         then div_s_loop k L_denom
                (add var_out 1, L_sub L_num L_denom,
                 add_globals var_out 1 (L_sub_globals L_num L_denom g))
         else div_s_loop k L_denom (var_out, L_num, g))"

definition div_s :: "Word16 \<Rightarrow> Word16 \<Rightarrow> basop_globals \<Rightarrow> (Word16 \<times> basop_globals) option" where
  "div_s var1 var2 g =
     (if var2 <s var1 \<or> var1 <s 0 \<or> var2 <s 0 then None
      else if var2 = 0 then None
      else if var1 = 0 then Some (0, BASOP_CHECK False False g)
      else if var1 = var2 then Some (MAX_16, BASOP_CHECK False False g)
      else
        (let L_num = L_deposit_l var1;
             L_denom = L_deposit_l var2;
             (var_out, L_num, g) = div_s_loop 15 L_denom (0, L_num, g)
         in Some (var_out, BASOP_CHECK False False g)))"

text \<open>
  The globals \<open>g\<close> after \<open>n\<close> overflow indicators have been handed to
  \<open>BASOP_CHECK\<close>: where \<open>overflow_warning_enable\<close> is set, \<open>overflow_count\<close> has
  been incremented \<open>n\<close> times, with the wrap-around of a 32-bit \<open>int\<close>; nothing else
  has changed.
\<close>

definition counted :: "nat \<Rightarrow> basop_globals \<Rightarrow> basop_globals" where
  "counted n g =
     (if overflow_warning_enable g \<noteq> 0
      then g\<lparr>overflow_count := overflow_count g + word_of_nat n\<rparr>
      else g)"

text \<open>Globals that differ from \<open>g\<close> in \<open>overflow_count\<close> at most.\<close>

definition counter_only :: "basop_globals \<Rightarrow> basop_globals \<Rightarrow> bool" where
  "counter_only g g' = (g' = g\<lparr>overflow_count := overflow_count g'\<rparr>)"

section \<open>attack_detector_fx.c\<close>

text \<open>
  The detector calls the operators of basop32.c; each call returns its value and leaves
  the diagnostics of basop32.c as its \<open>_globals\<close> function says. The macros
  \<open>Dyn_Mem_Deluxe_In\<close>, \<open>Dyn_Mem_Deluxe_Out\<close>, \<open>move16\<close> and \<open>test\<close>, whose
  definitions are not in the sources at hand, are the memory and complexity
  instrumentation of the operator library and compute nothing; they are left out, as the
  operation counters under \<open>WMOPS\<close> are. \<open>IF\<close>, \<open>FOR\<close> and \<open>SWITCH\<close> are the
  C statements.

  The operators \<open>s_min\<close> and \<open>L_max\<close> are called by the detector; their
  definitions are not in the sources at hand.
\<close>

text \<open>
  Modelled from the spec: \<open>s_min\<close>, of which only the call is in the sources. The
  specification has the detector "take the minimum of the three" candidate exponents.
\<close>

definition s_min :: "Word16 \<Rightarrow> Word16 \<Rightarrow> Word16" where
  "s_min var1 var2 = (if var1 <s var2 then var1 else var2)"

text \<open>
  Modelled from the spec: \<open>L_max\<close>, of which only the call is in the sources. The
  specification has the detector "update the running accumulated energy to the max of
  (accumulated energy decayed by 4, i.e., right-shifted by 2) and the current block's raw
  (unscaled) energy".
\<close>

definition L_max :: "Word32 \<Rightarrow> Word32 \<Rightarrow> Word32" where
  "L_max L_var1 L_var2 = (if L_var2 \<le>s L_var1 then L_var1 else L_var2)"

text \<open>
  The remaining helpers whose definitions are not in the sources are parameters of the
  model: the three scale-factor functions, which receive an array and a length, and the
  16-bit operator \<open>s_and\<close>. What a call of a helper, of \<open>s_min\<close> or of \<open>L_max\<close> does
  to the diagnostics of basop32.c is not in the sources either; it is a parameter as
  well, the function from the globals before the call to the globals after it.
\<close>

record attdec_helpers =
  getScaleFactor16 :: "Word16 list \<Rightarrow> Word16 \<Rightarrow> Word16"
  getScaleFactor16_0 :: "Word16 list \<Rightarrow> Word16 \<Rightarrow> Word16"
  getScaleFactor32_0 :: "Word32 list \<Rightarrow> Word16 \<Rightarrow> Word16"
  s_and :: "Word16 \<Rightarrow> Word16 \<Rightarrow> Word16"
  getScaleFactor16_globals :: "Word16 list \<Rightarrow> Word16 \<Rightarrow> basop_globals \<Rightarrow> basop_globals"
  getScaleFactor16_0_globals :: "Word16 list \<Rightarrow> Word16 \<Rightarrow> basop_globals \<Rightarrow> basop_globals"
  getScaleFactor32_0_globals :: "Word32 list \<Rightarrow> Word16 \<Rightarrow> basop_globals \<Rightarrow> basop_globals"
  s_and_globals :: "Word16 \<Rightarrow> Word16 \<Rightarrow> basop_globals \<Rightarrow> basop_globals"
  s_min_globals :: "Word16 \<Rightarrow> Word16 \<Rightarrow> basop_globals \<Rightarrow> basop_globals"
  L_max_globals :: "Word32 \<Rightarrow> Word32 \<Rightarrow> basop_globals \<Rightarrow> basop_globals"

text \<open>
  The fields of \<open>LC3_Enc\<close> and \<open>EncSetup\<close> that the detector touches; every other
  field of the two structures is in the record's extension.
\<close>

record LC3_Enc =
  fs :: Word32
  frame_length :: Word16
  attdec_nblocks :: Word16
  attdec_hangover_thresh :: Word16

record EncSetup =
  attack_handling :: Word16
  attdec_scaling :: Word16
  attdec_filter_mem :: "Word16 \<times> Word16"
  attdec_acc_energy :: Word32
  attdec_detected :: Word16
  attdec_position :: Word16

text \<open>
  The memory the function works on: the two structures (\<open>setup'\<close> is the
  parameter \<open>setup\<close>), the input frame, the scratch
  buffer, which the function divides into \<open>block_energy\<close> (four \<open>Word32\<close>) and,
  20 bytes further, \<open>input_16k\<close>, and the file-level variables of basop32.c, which
  the operators it calls reach through \<open>BASOP_CHECK\<close>. The list \<open>input_16k\<close> begins
  with the two samples in front, so that the C element \<open>input_16k[i]\<close> is at position
  \<open>i + 2\<close>. The input frame and the scratch buffer do not overlap.
\<close>

record ('e, 's) attdec_mem =
  enc :: "'e LC3_Enc_scheme"
  setup' :: "'s EncSetup_scheme"
  input :: "Word16 list"
  block_energy :: "Word32 list"
  input_16k :: "Word16 list"
  globals :: basop_globals

text \<open>
  The operator calls of one statement, each given by what it does to the globals, in the
  order in which the calls return: the arguments of a call from left to right, then the
  call.
\<close>

definition basop_calls ::
  "(basop_globals \<Rightarrow> basop_globals) list \<Rightarrow> ('e, 's) attdec_mem \<Rightarrow> ('e, 's) attdec_mem"
where
  "basop_calls calls m = m\<lparr>globals := fold (\<lambda>f g. f g) calls (globals m)\<rparr>"

text \<open>
  Array accesses. An index outside the array has no defined behaviour in C; the model
  stops there with \<open>None\<close>. \<open>block_energy\<close> has four elements.
\<close>

definition rd :: "'a list \<Rightarrow> int \<Rightarrow> 'a option" where
  "rd xs i = (if 0 \<le> i \<and> i < int (length xs) then Some (xs ! nat i) else None)"

definition wr :: "'a list \<Rightarrow> int \<Rightarrow> 'a \<Rightarrow> 'a list option" where
  "wr xs i v = (if 0 \<le> i \<and> i < int (length xs) then Some (xs[nat i := v]) else None)"

definition rd_block :: "Word32 list \<Rightarrow> int \<Rightarrow> Word32 option" where
  "rd_block xs j = (if j < 4 then rd xs j else None)"

definition wr_block :: "Word32 list \<Rightarrow> int \<Rightarrow> Word32 \<Rightarrow> Word32 list option" where
  "wr_block xs j v = (if j < 4 then wr xs j v else None)"

text \<open>A \<open>FOR\<close> loop over the given indices, in the given order.\<close>

fun for_each :: "'a list \<Rightarrow> ('a \<Rightarrow> 's \<Rightarrow> 's option) \<Rightarrow> 's \<Rightarrow> 's option" where
  "for_each [] body s = Some s"
| "for_each (i # rest) body s = Option.bind (body i s) (for_each rest body)"

text \<open>
  Lines 30 to 36: the new scaling, with the memory after the calls.
  \<open>getScaleFactor16\<close> reads \<open>frame_length\<close> samples.
\<close>

definition attdec_new_scaling ::
  "attdec_helpers \<Rightarrow> Word16 \<Rightarrow> ('e, 's) attdec_mem \<Rightarrow> (Word16 \<times> ('e, 's) attdec_mem) option"
where
  "attdec_new_scaling H input_scaling m =
     (if sint (frame_length (enc m)) \<le> int (length (input m)) then
        (let f0 = getScaleFactor16 H (input m) (frame_length (enc m));
             scales0 = add f0 input_scaling;
             filter_mem = [fst (attdec_filter_mem (setup' m)), snd (attdec_filter_mem (setup' m))];
             f1 = getScaleFactor16_0 H filter_mem 2;
             scales1 = add f1 (attdec_scaling (setup' m));
             f2 = getScaleFactor32_0 H [attdec_acc_energy (setup' m)] 1;
             s2 = shl (attdec_scaling (setup' m)) 1;
             scales2 = shr (add (add f2 s2) 1) 1;
             new_scaling = s_min scales0 (s_min scales1 scales2)
         in Some (sub new_scaling 2,
              basop_calls
                [getScaleFactor16_globals H (input m) (frame_length (enc m)),
                 add_globals f0 input_scaling,
                 getScaleFactor16_0_globals H filter_mem 2,
                 add_globals f1 (attdec_scaling (setup' m)),
                 getScaleFactor32_0_globals H [attdec_acc_energy (setup' m)] 1,
                 shl_globals (attdec_scaling (setup' m)) 1,
                 add_globals f2 s2,
                 add_globals (add f2 s2) 1,
                 shr_globals (add (add f2 s2) 1) 1,
                 s_min_globals H scales1 scales2,
                 s_min_globals H scales0 (s_min scales1 scales2),
                 sub_globals new_scaling 2] m))
      else None)"

text \<open>Lines 39 to 47: the persistent memory is moved to the new scaling.\<close>

definition attdec_rescale :: "Word16 \<Rightarrow> ('e, 's) attdec_mem \<Rightarrow> ('e, 's) attdec_mem" where
  "attdec_rescale new_scaling m =
     (let rescale = sub new_scaling (attdec_scaling (setup' m));
          m = basop_calls [sub_globals new_scaling (attdec_scaling (setup' m))] m;
          m1 = (if rescale \<noteq> 0 then
                  basop_calls
                    [shl_globals (fst (attdec_filter_mem (setup' m))) rescale,
                     shl_globals (snd (attdec_filter_mem (setup' m))) rescale,
                     shl_globals rescale 1,
                     L_shl_globals (attdec_acc_energy (setup' m)) (shl rescale 1)]
                    (m\<lparr>setup' := (setup' m)
                       \<lparr>attdec_filter_mem :=
                          (shl (fst (attdec_filter_mem (setup' m))) rescale,
                           shl (snd (attdec_filter_mem (setup' m))) rescale),
                        attdec_acc_energy :=
                          L_shl (attdec_acc_energy (setup' m)) (shl rescale 1)\<rparr>\<rparr>)
                else m)
      in m1\<lparr>setup' := (setup' m1)\<lparr>attdec_scaling := new_scaling\<rparr>\<rparr>)"

text \<open>
  Lines 49 to 69: the frame is brought to 16 kHz. Any other sampling rate ends in
  \<open>ASSERT\<close>, which stops the program.
\<close>

definition attdec_downsample ::
  "Word16 \<Rightarrow> Word16 \<Rightarrow> int \<Rightarrow> ('e, 's) attdec_mem \<Rightarrow> ('e, 's) attdec_mem option"
where
  "attdec_downsample new_scaling input_scaling frame_length_16k m =
     (if fs (enc m) = 32000 then
        (let input_delta_scaling = sub 1 (sub new_scaling input_scaling) in
         for_each [0..<nat frame_length_16k]
           (\<lambda>i m. do {
              a \<leftarrow> rd (input m) (2 * int i + 0);
              b \<leftarrow> rd (input m) (2 * int i + 1);
              l \<leftarrow> wr (input_16k m) (int i + 2)
                     (add (shr a input_delta_scaling) (shr b input_delta_scaling));
              Some (basop_calls
                      [shr_globals a input_delta_scaling,
                       shr_globals b input_delta_scaling,
                       add_globals (shr a input_delta_scaling) (shr b input_delta_scaling)]
                      (m\<lparr>input_16k := l\<rparr>))
            })
           (basop_calls
              [sub_globals new_scaling input_scaling,
               sub_globals 1 (sub new_scaling input_scaling)] m))
      else if fs (enc m) = 48000 then
        (let input_delta_scaling = sub 2 (sub new_scaling input_scaling) in
         for_each [0..<nat frame_length_16k]
           (\<lambda>i m. do {
              a \<leftarrow> rd (input m) (3 * int i + 0);
              b \<leftarrow> rd (input m) (3 * int i + 1);
              c \<leftarrow> rd (input m) (3 * int i + 2);
              l \<leftarrow> wr (input_16k m) (int i + 2)
                     (add (shr a input_delta_scaling)
                          (add (shr b input_delta_scaling) (shr c input_delta_scaling)));
              Some (basop_calls
                      [shr_globals a input_delta_scaling,
                       shr_globals b input_delta_scaling,
                       shr_globals c input_delta_scaling,
                       add_globals (shr b input_delta_scaling) (shr c input_delta_scaling),
                       add_globals (shr a input_delta_scaling)
                         (add (shr b input_delta_scaling) (shr c input_delta_scaling))]
                      (m\<lparr>input_16k := l\<rparr>))
            })
           (basop_calls
              [sub_globals new_scaling input_scaling,
               sub_globals 2 (sub new_scaling input_scaling)] m))
      else None)"

text \<open>Lines 71 to 74: the filter memory goes in front, the last two samples are kept.\<close>

definition attdec_exchange_mem ::
  "int \<Rightarrow> ('e, 's) attdec_mem \<Rightarrow> ('e, 's) attdec_mem option"
where
  "attdec_exchange_mem frame_length_16k m = do {
     l \<leftarrow> wr (input_16k m) (- 2 + 2) (fst (attdec_filter_mem (setup' m)));
     l \<leftarrow> wr l (- 1 + 2) (snd (attdec_filter_mem (setup' m)));
     let m = m\<lparr>input_16k := l\<rparr>;
     a \<leftarrow> rd (input_16k m) (frame_length_16k - 2 + 2);
     let m = m\<lparr>setup' := (setup' m)\<lparr>attdec_filter_mem := (a, snd (attdec_filter_mem (setup' m)))\<rparr>\<rparr>;
     b \<leftarrow> rd (input_16k m) (frame_length_16k - 1 + 2);
     Some (m\<lparr>setup' := (setup' m)\<lparr>attdec_filter_mem := (fst (attdec_filter_mem (setup' m)), b)\<rparr>\<rparr>)
   }"

text \<open>Lines 76 to 83: the high-pass filter, from the last sample down to the first.\<close>

definition attdec_filter ::
  "int \<Rightarrow> ('e, 's) attdec_mem \<Rightarrow> ('e, 's) attdec_mem option"
where
  "attdec_filter frame_length_16k m =
     for_each (rev [0..<nat frame_length_16k])
       (\<lambda>i m. do {
          x0 \<leftarrow> rd (input_16k m) (int i + 2);
          let tmp0 = L_mult x0 12288;
          x1 \<leftarrow> rd (input_16k m) (int i - 1 + 2);
          let tmp1 = L_msu tmp0 x1 16384;
          x2 \<leftarrow> rd (input_16k m) (int i - 2 + 2);
          let tmp = L_mac tmp1 x2 4096;
          l \<leftarrow> wr (input_16k m) (int i + 2) (extract_h tmp);
          Some (basop_calls
                  [L_mult_globals x0 12288,
                   L_msu_globals tmp0 x1 16384,
                   L_mac_globals tmp1 x2 4096,
                   extract_h_globals]
                  (m\<lparr>input_16k := l\<rparr>))
        }) m"

text \<open>Lines 85 to 93: \<open>basop_memset\<close> clears the four words, then the block energies.\<close>

definition attdec_block_energies :: "('e, 's) attdec_mem \<Rightarrow> ('e, 's) attdec_mem option" where
  "attdec_block_energies m =
     (if 4 \<le> length (block_energy m) then
        for_each [0..<nat (sint (attdec_nblocks (enc m)))]
          (\<lambda>j. for_each [0..<40]
             (\<lambda>i m. do {
                e \<leftarrow> rd_block (block_energy m) (int j);
                x \<leftarrow> rd (input_16k m) (int i + int j * 40 + 2);
                l \<leftarrow> wr_block (block_energy m) (int j) (L_mac e x x);
                Some (basop_calls [L_mac_globals e x x] (m\<lparr>block_energy := l\<rparr>))
              }))
          (m\<lparr>block_energy := replicate 4 0 @ drop 4 (block_energy m)\<rparr>)
      else None)"

text \<open>
  Lines 95 to 115. The loop state is the memory with the local \<open>position\<close>. One
  iteration compares the scaled energy of block \<open>i\<close> with the accumulated energy and
  then moves the accumulated energy on.
\<close>

definition attdec_detect_step ::
  "attdec_helpers \<Rightarrow> nat \<Rightarrow> ('e, 's) attdec_mem \<times> int \<Rightarrow> (('e, 's) attdec_mem \<times> int) option"
where
  "attdec_detect_step H i s =
     (case s of (m, position) \<Rightarrow> do {
        e \<leftarrow> rd_block (block_energy m) (int i);
        let l16 = extract_l (L_shr e 1);
        let m = basop_calls [L_shr_globals e 1, extract_l_globals] m;
        let m = basop_calls [s_and_globals H l16 0x7fff] m;
        let l16 = s_and H l16 0x7fff;
        let h16 = extract_h e;
        let m = basop_calls [extract_h_globals] m;
        let tmp = L_shr (L_mult0 l16 30840) 15;
        let m = basop_calls [L_mult0_globals l16 30840, L_shr_globals (L_mult0 l16 30840) 15] m;
        let m = basop_calls
                  [L_mac0_globals tmp h16 30840, L_shr_globals (L_mac0 tmp h16 30840) 2] m;
        let tmp = L_shr (L_mac0 tmp h16 30840) 2;
        let (m, position) =
          (if attdec_acc_energy (setup' m) <s tmp
           then (m\<lparr>setup' := (setup' m)\<lparr>attdec_detected := 1\<rparr>\<rparr>, int i)
           else (m, position));
        Some (basop_calls
                [L_shr_globals (attdec_acc_energy (setup' m)) 2,
                 L_max_globals H (L_shr (attdec_acc_energy (setup' m)) 2) e]
                (m\<lparr>setup' := (setup' m)
                   \<lparr>attdec_acc_energy := L_max (L_shr (attdec_acc_energy (setup' m)) 2) e\<rparr>\<rparr>),
              position)
      })"

text \<open>Lines 95 to 114, stopped after the first \<open>k\<close> blocks.\<close>

definition attdec_detect_blocks ::
  "attdec_helpers \<Rightarrow> nat \<Rightarrow> ('e, 's) attdec_mem \<Rightarrow> (('e, 's) attdec_mem \<times> int) option"
where
  "attdec_detect_blocks H k m =
     for_each [0..<k] (attdec_detect_step H)
       (m\<lparr>setup' := (setup' m)
          \<lparr>attdec_detected :=
             (if attdec_hangover_thresh (enc m) \<le>s attdec_position (setup' m) then 1 else 0)\<rparr>\<rparr>,
        - 1)"

definition attdec_detect ::
  "attdec_helpers \<Rightarrow> ('e, 's) attdec_mem \<Rightarrow> ('e, 's) attdec_mem option"
where
  "attdec_detect H m = do {
     (m, position) \<leftarrow> attdec_detect_blocks H (nat (sint (attdec_nblocks (enc m)))) m;
     Some (m\<lparr>setup' := (setup' m)\<lparr>attdec_position := word_of_int position\<rparr>\<rparr>)
   }"

text \<open>Lines 30 to 93: everything before the detection loop.\<close>

definition attdec_prepare ::
  "attdec_helpers \<Rightarrow> Word16 \<Rightarrow> int \<Rightarrow> ('e, 's) attdec_mem \<Rightarrow> ('e, 's) attdec_mem option"
where
  "attdec_prepare H input_scaling frame_length_16k m = do {
     (new_scaling, m) \<leftarrow> attdec_new_scaling H input_scaling m;
     let m = attdec_rescale new_scaling m;
     m \<leftarrow> attdec_downsample new_scaling input_scaling frame_length_16k m;
     m \<leftarrow> attdec_exchange_mem frame_length_16k m;
     m \<leftarrow> attdec_filter frame_length_16k m;
     attdec_block_energies m
   }"

text \<open>
  The function. \<open>frame_length_16k\<close> is computed, by a call of \<open>i_mult\<close>, before the
  test of \<open>attack_handling\<close>, as in the source. \<open>None\<close>: the call does not return.
\<close>

definition attack_detector_fx ::
  "attdec_helpers \<Rightarrow> Word16 \<Rightarrow> ('e, 's) attdec_mem \<Rightarrow> ('e, 's) attdec_mem option"
where
  "attack_detector_fx H input_scaling m =
     (let frame_length_16k = sint (i_mult (attdec_nblocks (enc m)) 40);
          m = basop_calls [i_mult_globals (attdec_nblocks (enc m)) 40] m
      in if attack_handling (setup' m) \<noteq> 0 then do {
        m \<leftarrow> attdec_prepare H input_scaling frame_length_16k m;
        attdec_detect H m
      }
      else Some m)"

text \<open>
  The helpers leave the diagnostics of basop32.c as they are but for the counter
  \<open>overflow_count\<close>, as the operators of basop32.c do.
\<close>

definition helpers_count_only :: "attdec_helpers \<Rightarrow> bool" where
  "helpers_count_only H =
     ((\<forall>xs n g. counter_only g (getScaleFactor16_globals H xs n g)) \<and>
      (\<forall>xs n g. counter_only g (getScaleFactor16_0_globals H xs n g)) \<and>
      (\<forall>xs n g. counter_only g (getScaleFactor32_0_globals H xs n g)) \<and>
      (\<forall>a b g. counter_only g (s_and_globals H a b g)) \<and>
      (\<forall>a b g. counter_only g (s_min_globals H a b g)) \<and>
      (\<forall>a b g. counter_only g (L_max_globals H a b g)))"

text \<open>
  A frame to run the detector on: one block of 40 samples at 16 kHz, that is 80 input
  samples at 32 kHz, silent but for one sample; the persistent state is not zero. The
  scale-factor helpers are set to constants and \<open>s_and\<close> to the bitwise conjunction;
  no helper touches the globals.
\<close>

definition sample_helpers :: attdec_helpers where
  "sample_helpers =
     \<lparr> getScaleFactor16 = (\<lambda>xs n. 3), getScaleFactor16_0 = (\<lambda>xs n. 5),
       getScaleFactor32_0 = (\<lambda>xs n. 7), s_and = (\<lambda>a b. a AND b),
       getScaleFactor16_globals = (\<lambda>xs n g. g), getScaleFactor16_0_globals = (\<lambda>xs n g. g),
       getScaleFactor32_0_globals = (\<lambda>xs n g. g), s_and_globals = (\<lambda>a b g. g),
       s_min_globals = (\<lambda>a b g. g), L_max_globals = (\<lambda>a b g. g) \<rparr>"

definition sample_mem :: "(unit, unit) attdec_mem" where
  "sample_mem =
     \<lparr> enc = \<lparr> fs = 32000, frame_length = 80, attdec_nblocks = 1,
               attdec_hangover_thresh = 2 \<rparr>,
       setup' = \<lparr> attack_handling = 1, attdec_scaling = 0, attdec_filter_mem = (100, - 200),
                  attdec_acc_energy = 1000, attdec_detected = 0, attdec_position = 0 \<rparr>,
       input = map (\<lambda>i. if i = 41 then 8000 else 0) [0..<80],
       block_energy = replicate 4 7,
       input_16k = replicate 42 9,
       globals = basop_init \<rparr>"

text \<open>The same frame with attack handling switched off.\<close>

definition sample_mem_off :: "(unit, unit) attdec_mem" where
  "sample_mem_off = sample_mem\<lparr>setup' := (setup' sample_mem)\<lparr>attack_handling := 0\<rparr>\<rparr>"

text \<open>
  A silent frame in the 10 ms configuration at 32 kHz: four blocks, 320 input samples,
  all zero, zero filter memory, accumulated energy 1024. With the helpers above the
  scaling stays at 1, so the persistent memory is not rescaled.
\<close>

definition quiet_mem :: "(unit, unit) attdec_mem" where
  "quiet_mem =
     \<lparr> enc = \<lparr> fs = 32000, frame_length = 320, attdec_nblocks = 4,
               attdec_hangover_thresh = 2 \<rparr>,
       setup' = \<lparr> attack_handling = 1, attdec_scaling = 1, attdec_filter_mem = (0, 0),
                  attdec_acc_energy = 1024, attdec_detected = 0, attdec_position = - 1 \<rparr>,
       input = replicate 320 0,
       block_energy = replicate 4 0,
       input_16k = replicate 162 0,
       globals = basop_init \<rparr>"

text \<open>
  A loud frame: one block, 80 input samples at 32 kHz that go from 32767 to -32768 and
  back every two samples, no headroom in the persistent state, and scale-factor helpers
  that return 0.
\<close>

definition loud_helpers :: attdec_helpers where
  "loud_helpers =
     sample_helpers\<lparr> getScaleFactor16 := (\<lambda>xs n. 0), getScaleFactor16_0 := (\<lambda>xs n. 0),
       getScaleFactor32_0 := (\<lambda>xs n. 0) \<rparr>"

definition loud_mem :: "(unit, unit) attdec_mem" where
  "loud_mem =
     \<lparr> enc = \<lparr> fs = 32000, frame_length = 80, attdec_nblocks = 1,
               attdec_hangover_thresh = 2 \<rparr>,
       setup' = \<lparr> attack_handling = 1, attdec_scaling = 0, attdec_filter_mem = (16384, - 16384),
                  attdec_acc_energy = 0x40000000, attdec_detected = 0, attdec_position = - 1 \<rparr>,
       input = map (\<lambda>i. if (i div 2) mod 2 = 0 then 32767 else - 32768) [0..<80],
       block_energy = replicate 4 0,
       input_16k = replicate 42 0,
       globals = basop_init \<rparr>"

text \<open>
  What the detector may change in the structures: nothing in \<open>LC3_Enc\<close>, nothing in
  the input frame, and in \<open>EncSetup\<close> neither \<open>attack_handling\<close> nor any field
  outside the six named ones.
\<close>

definition attdec_frame :: "('e, 's) attdec_mem \<Rightarrow> ('e, 's) attdec_mem \<Rightarrow> bool" where
  "attdec_frame m m' =
     (enc m' = enc m \<and> input m' = input m \<and>
      attack_handling (setup' m') = attack_handling (setup' m) \<and>
      EncSetup.more (setup' m') = EncSetup.more (setup' m))"

text \<open>What it may change in the diagnostics of basop32.c: the counter.\<close>

definition attdec_counts :: "('e, 's) attdec_mem \<Rightarrow> ('e, 's) attdec_mem \<Rightarrow> bool" where
  "attdec_counts m m' = counter_only (globals m) (globals m')"

text \<open>The clamp of the specification, on mathematical integers.\<close>

definition clamp :: "int \<Rightarrow> int \<Rightarrow> int \<Rightarrow> int" where
  "clamp x lo hi = (if x < lo then lo else if hi < x then hi else x)"

text \<open>Whether a mathematical result can be represented in 16 resp. 32 bits.\<close>

definition fits16 :: "int \<Rightarrow> bool" where
  "fits16 x = (- 32768 \<le> x \<and> x \<le> 32767)"

definition fits32 :: "int \<Rightarrow> bool" where
  "fits32 x = (- 2147483648 \<le> x \<and> x \<le> 2147483647)"

text \<open>
  The rounded Q15 quotient that the specification names for \<open>div_s\<close>:
  \<open>round(a / b * 32768)\<close>, halves upwards.
\<close>

definition round_q15 :: "int \<Rightarrow> int \<Rightarrow> int" where
  "round_q15 a b = (2 * a * 32768 + b) div (2 * b)"

section \<open>Signed values of the intermediate results\<close>

lemma sint16_range: "- 32768 \<le> sint (w :: Word16) \<and> sint w \<le> 32767"
  using sint_ge [of w] sint_lt [of w] by simp

lemma sint32_range: "- 2147483648 \<le> sint (w :: Word32) \<and> sint w \<le> 2147483647"
  using sint_ge [of w] sint_lt [of w] by simp

lemma sint_scast_16_32: "sint (scast (w :: Word16) :: Word32) = sint w"
  by (simp add: sint_up_scast is_up)

lemma sint_wide_sum: "sint (scast (a :: Word16) + scast (b :: Word16) :: Word32) = sint a + sint b"
proof -
  have "sint (scast a + scast b :: Word32) = signed_take_bit 31 (sint a + sint b)"
    by (simp add: sint_word_ariths sint_scast_16_32)
  also have "\<dots> = sint a + sint b"
    using sint16_range [of a] sint16_range [of b]
    by (intro signed_take_bit_int_eq_self) simp_all
  finally show ?thesis .
qed

lemma sint_wide_diff: "sint (scast (a :: Word16) - scast (b :: Word16) :: Word32) = sint a - sint b"
proof -
  have "sint (scast a - scast b :: Word32) = signed_take_bit 31 (sint a - sint b)"
    by (simp add: sint_word_ariths sint_scast_16_32)
  also have "\<dots> = sint a - sint b"
    using sint16_range [of a] sint16_range [of b]
    by (intro signed_take_bit_int_eq_self) simp_all
  finally show ?thesis .
qed

lemma sint_extract_l_small:
  assumes "- 32768 \<le> sint L" "sint L \<le> 32767"
  shows "sint (extract_l L) = sint L"
proof -
  have "sint (extract_l L) = signed_take_bit 15 (sint L)"
    unfolding extract_l_def
    by (simp add: sint_uint signed_take_bit_eq_iff_take_bit_eq unsigned_ucast_eq take_bit_signed_take_bit min_def)
  also have "\<dots> = sint L"
    using assms by (intro signed_take_bit_int_eq_self) simp_all
  finally show ?thesis .
qed

lemma sint_saturate: "sint (saturate L) = clamp (sint L) (- 32768) 32767"
proof -
  have hi: "0x00007fff <s L \<longleftrightarrow> 32767 < sint L"
    by (simp add: word_sless_alt)
  have lo: "L <s 0xffff8000 \<longleftrightarrow> sint L < - 32768"
    by (simp add: word_sless_alt)
  show ?thesis
    unfolding saturate_def saturate_loc_def clamp_def
    using sint_extract_l_small [of L]
    by (simp add: hi lo MAX_16_def MIN_16_def)
qed

section \<open>The sign bit and 32-bit sums\<close>

lemma BASOP_CHECK_00: "BASOP_CHECK False False g = g"
  by (simp add: BASOP_CHECK_def)

lemma sign32: "((w :: Word32) AND MIN_32 = 0) = (0 \<le> sint w)"
proof -
  have "MIN_32 = 2 ^ 31" by (simp add: MIN_32_def)
  then have "(w AND MIN_32 = 0) = (\<not> bit w 31)"
    using and_exp_eq_0_iff_not_bit [of w 31] by (simp only:)
  also have "\<dots> = (0 \<le> sint w)"
    using bit_last_iff [of w] by auto
  finally show ?thesis .
qed

lemma xor_sign32: "(((a :: Word32) XOR b) AND MIN_32 = 0) = ((0 \<le> sint a) = (0 \<le> sint b))"
proof -
  have "MIN_32 = 2 ^ 31" by (simp add: MIN_32_def)
  then have "((a XOR b) AND MIN_32 = 0) = (\<not> bit (a XOR b) 31)"
    using and_exp_eq_0_iff_not_bit [of "a XOR b" 31] by (simp only:)
  also have "\<dots> = (bit a 31 = bit b 31)"
    by (simp add: bit_xor_iff)
  also have "\<dots> = ((0 \<le> sint a) = (0 \<le> sint b))"
    using bit_last_iff [of a] bit_last_iff [of b] by auto
  finally show ?thesis .
qed

lemma stb31_cases:
  fixes k :: int
  assumes "- 4294967296 \<le> k" "k < 4294967296"
  shows "signed_take_bit 31 k =
     (if k < - 2147483648 then k + 4294967296 else if 2147483647 < k then k - 4294967296 else k)"
proof -
  have a: "signed_take_bit (31::nat) k = k" if "- 2147483648 \<le> k" "k \<le> 2147483647"
    using that by (intro signed_take_bit_int_eq_self) simp_all
  have b: "signed_take_bit (31::nat) k = k + 4294967296" if "k < - 2147483648"
  proof -
    have "signed_take_bit (31::nat) k = signed_take_bit 31 (k + 2 ^ Suc 31)"
      by (simp only: signed_take_bit_eq_iff_take_bit_eq take_bit_add) (simp add: take_bit_eq_mod)
    also have "\<dots> = k + 2 ^ Suc 31"
      using that assms by (intro signed_take_bit_int_eq_self) simp_all
    finally show ?thesis by simp
  qed
  have c: "signed_take_bit (31::nat) k = k - 4294967296" if "2147483647 < k"
  proof -
    have "signed_take_bit (31::nat) k = signed_take_bit 31 (k - 2 ^ Suc 31)"
      by (simp only: signed_take_bit_eq_iff_take_bit_eq take_bit_diff) (simp add: take_bit_eq_mod)
    also have "\<dots> = k - 2 ^ Suc 31"
      using that assms by (intro signed_take_bit_int_eq_self) simp_all
    finally show ?thesis by simp
  qed
  show ?thesis using a b c by auto
qed


lemma sint_add32: "sint ((a :: Word32) + b) =
   (if sint a + sint b < - 2147483648 then sint a + sint b + 4294967296
    else if 2147483647 < sint a + sint b then sint a + sint b - 4294967296
    else sint a + sint b)"
  using sint32_range [of a] sint32_range [of b]
  by (simp only: sint_word_ariths) (simp add: stb31_cases)

lemma sint_sub32: "sint ((a :: Word32) - b) =
   (if sint a - sint b < - 2147483648 then sint a - sint b + 4294967296
    else if 2147483647 < sint a - sint b then sint a - sint b - 4294967296
    else sint a - sint b)"
  using sint32_range [of a] sint32_range [of b]
  by (simp only: sint_word_ariths) (simp add: stb31_cases)

lemma L_add_loc_eq:
  "L_add_loc a b =
     (if sint a + sint b < - 2147483648 then (MIN_32, True)
      else if 2147483647 < sint a + sint b then (MAX_32, True)
      else (a + b, False))"
  using sint32_range [of a] sint32_range [of b]
  by (auto simp add: L_add_loc_def Let_def xor_sign32 sint_add32 word_sless_alt)

lemma L_sub_loc_eq:
  "L_sub_loc a b =
     (if sint a - sint b < - 2147483648 then (MIN_32, True)
      else if 2147483647 < sint a - sint b then (MAX_32, True)
      else (a - b, False))"
  using sint32_range [of a] sint32_range [of b]
  by (auto simp add: L_sub_loc_def Let_def xor_sign32 sint_sub32 word_sless_alt)

section \<open>Shifts by zero and by negative counts\<close>

lemma sint_neg16:
  fixes v :: Word16
  assumes "- 32767 \<le> sint v"
  shows "sint (- v) = - sint v"
  using assms sint16_range [of v]
  by (simp add: sint_word_ariths signed_take_bit_int_eq_self)

lemma ucast_scast_16: "(ucast (scast (a :: Word16) :: Word32) :: Word16) = a"
  by (rule bit_word_eqI) (auto simp add: bit_simps)

lemma shl_0: "shl a 0 = a"
  by (simp add: shl_def shl_loc.simps Let_def extract_l_def ucast_scast_16 word_sless_alt)

lemma shr_0: "shr a 0 = a"
  by (simp add: shr_def shr_loc.simps word_sless_alt word_sle_eq)

lemma shl_neg: "var2 <s 0 \<Longrightarrow> shl var1 var2 = shr var1 (- (if var2 <s - 16 then - 16 else var2))"
  by (simp add: shl_def shr_def shl_loc.simps [of var1 var2])

lemma shr_neg: "var2 <s 0 \<Longrightarrow> shr var1 var2 = shl var1 (- (if var2 <s - 16 then - 16 else var2))"
  by (simp add: shl_def shr_def shr_loc.simps [of var1 var2])


section \<open>The division loop\<close>

lemma saturate_loc_eq:
  "saturate_loc L =
     (if 32767 < sint L then (MAX_16, True)
      else if sint L < - 32768 then (MIN_16, True)
      else (extract_l L, False))"
  by (simp add: saturate_loc_def word_sless_alt)

lemma sint_add: "sint (add a b) = clamp (sint a + sint b) (- 32768) 32767"
  by (simp add: add_def sint_saturate sint_wide_sum)

lemma sint_sub: "sint (sub a b) = clamp (sint a - sint b) (- 32768) 32767"
  by (simp add: sub_def sint_saturate sint_wide_diff)

lemma saturate_globals_fit:
  assumes "- 32768 \<le> sint L" "sint L \<le> 32767"
  shows "saturate_globals L g = g"
  using assms
  by (simp add: saturate_globals_def saturate_loc_eq extract_l_globals_def BASOP_CHECK_00)

lemma add_globals_fit:
  assumes "- 32768 \<le> sint a + sint b" "sint a + sint b \<le> 32767"
  shows "add_globals a b g = g"
  using assms by (simp add: add_globals_def saturate_globals_fit sint_wide_sum)

lemma L_sub_globals_fit:
  assumes "- 2147483648 \<le> sint a - sint b" "sint a - sint b \<le> 2147483647"
  shows "L_sub_globals a b g = g"
  using assms
  by (simp add: L_sub_globals_def L_sub_loc_eq BASOP_CHECK_00)

lemma sint_L_sub_fit:
  assumes "- 2147483648 \<le> sint a - sint b" "sint a - sint b \<le> 2147483647"
  shows "sint (L_sub a b) = sint a - sint b"
  using assms
  by (simp add: L_sub_def L_sub_loc_eq sint_sub32)

lemma sint_double16:
  fixes v :: Word16
  assumes "- 16384 \<le> sint v" "sint v < 16384"
  shows "sint (v * 2) = 2 * sint v"
proof -
  have "sint (v * 2) = signed_take_bit 15 (2 * sint v)"
    by (simp add: sint_word_ariths mult.commute)
  also have "\<dots> = 2 * sint v"
    using assms by (intro signed_take_bit_int_eq_self) simp_all
  finally show ?thesis .
qed

lemma sint_double32:
  fixes v :: Word32
  assumes "- 1073741824 \<le> sint v" "sint v < 1073741824"
  shows "sint (v * 2) = 2 * sint v"
proof -
  have "sint (v * 2) = signed_take_bit 31 (2 * sint v)"
    by (simp add: sint_word_ariths mult.commute)
  also have "\<dots> = 2 * sint v"
    using assms by (intro signed_take_bit_int_eq_self) simp_all
  finally show ?thesis .
qed

lemma quotient_step:
  fixes r d :: int
  assumes "0 < d"
  shows "(2 * r * 2 ^ k) div d = ((2 * r - d) * 2 ^ k) div d + 2 ^ k"
proof -
  have "2 * r * 2 ^ k = (2 * r - d) * 2 ^ k + 2 ^ k * d"
    by (simp add: algebra_simps)
  then show ?thesis
    using assms by (simp only: div_mult_self2) simp
qed

lemma div_s_loop_correct:
  assumes "0 \<le> sint L_num" "sint L_num < sint L_denom" "sint L_denom \<le> 32767"
    and "0 \<le> sint var_out" "(sint var_out + 1) * 2 ^ k \<le> 32768"
  shows "\<exists>w r. div_s_loop k L_denom (var_out, L_num, g) = (w, r, g) \<and>
           sint w = sint var_out * 2 ^ k + (sint L_num * 2 ^ k) div sint L_denom"
  using assms
proof (induction k arbitrary: var_out L_num)
  case 0
  then show ?case by simp
next
  case (Suc k)
  let ?v = "var_out * 2" and ?n = "L_num * 2"
  have pos: "(0::int) < 2 ^ k" by simp
  define X where "X = (sint var_out + 1) * 2 ^ k"
  have "(sint var_out + 1) * 1 \<le> (sint var_out + 1) * 2 ^ k"
    using Suc.prems(4) by (intro mult_left_mono) simp_all
  then have "sint var_out + 1 \<le> X"
    by (simp add: X_def)
  moreover have X2: "X * 2 \<le> 32768"
    using Suc.prems(5) by (simp add: X_def mult.commute mult.left_commute)
  ultimately have small: "sint var_out < 16384"
    by linarith
  have XX: "(2 * sint var_out + 2) * 2 ^ k = X * 2"
    by (simp add: X_def algebra_simps)
  have v: "sint ?v = 2 * sint var_out"
    using Suc.prems(4) small by (intro sint_double16) simp_all
  have n: "sint ?n = 2 * sint L_num"
    using Suc.prems(1-3) by (intro sint_double32) simp_all
  show ?case
  proof (cases "L_denom \<le>s ?n")
    case True
    then have ge: "sint L_denom \<le> 2 * sint L_num"
      by (simp only: word_sle_eq n)
    have sub: "L_sub_globals ?n L_denom g = g" "sint (L_sub ?n L_denom) = 2 * sint L_num - sint L_denom"
      using L_sub_globals_fit [of ?n L_denom g] sint_L_sub_fit [of ?n L_denom]
        Suc.prems(1-3) ge n by simp_all
    have addg: "add_globals ?v 1 g = g"
      using Suc.prems(4) small v by (intro add_globals_fit) simp_all
    have addv: "sint (add ?v 1) = 2 * sint var_out + 1"
      using Suc.prems(4) small by (simp add: sint_add clamp_def v)
    have "(sint (add ?v 1) + 1) * 2 ^ k = X * 2"
      unfolding addv using XX by (simp only: add.assoc one_add_one)
    then have bound: "(sint (add ?v 1) + 1) * 2 ^ k \<le> 32768"
      using X2 by (simp only:)
    obtain w r where
      loop: "div_s_loop k L_denom (add ?v 1, L_sub ?n L_denom, g) = (w, r, g)"
      and w: "sint w = sint (add ?v 1) * 2 ^ k + (sint (L_sub ?n L_denom) * 2 ^ k) div sint L_denom"
      using Suc.IH [where L_num = "L_sub ?n L_denom" and var_out = "add ?v 1"] Suc.prems(1-4) ge sub(2) addv bound
      by auto
    have dpos: "0 < sint L_denom" using Suc.prems(1,2) by simp
    have "sint w = sint var_out * 2 ^ Suc k + (sint L_num * 2 ^ Suc k) div sint L_denom"
      using quotient_step [OF dpos, of "sint L_num" k]
      by (simp add: w addv sub(2) algebra_simps)
    with loop True sub(1) addg show ?thesis
      by (simp add: Let_def)
  next
    case False
    then have lt: "2 * sint L_num < sint L_denom"
      by (simp only: word_sle_eq n not_le)
    have bound: "(sint ?v + 1) * 2 ^ k \<le> 32768"
    proof -
      have "(2 * sint var_out + 1) * 2 ^ k \<le> (2 * sint var_out + 2) * 2 ^ k"
        by (intro mult_right_mono) simp_all
      also have "\<dots> = X * 2" by (rule XX)
      finally show ?thesis using X2 by (simp add: v)
    qed
    obtain w r where
      loop: "div_s_loop k L_denom (?v, ?n, g) = (w, r, g)"
      and w: "sint w = sint ?v * 2 ^ k + (sint ?n * 2 ^ k) div sint L_denom"
      using Suc.IH [where L_num = ?n and var_out = ?v] Suc.prems(1-4) lt v n bound by auto
    have "sint w = sint var_out * 2 ^ Suc k + (sint L_num * 2 ^ Suc k) div sint L_denom"
      by (simp add: w v n algebra_simps)
    with loop False show ?thesis
      by (simp add: Let_def)
  qed
qed

lemma div_s_quotient:
  assumes "0 \<le> sint var1" "sint var1 < sint var2"
  shows "\<exists>w. div_s var1 var2 g = Some (w, g) \<and> sint w = (sint var1 * 32768) div sint var2"
proof (cases "var1 = 0")
  case True
  have "var2 \<noteq> 0" using assms True by auto
  with True assms show ?thesis
    by (simp add: div_s_def word_sless_alt BASOP_CHECK_00)
next
  case False
  have ne: "var1 \<noteq> var2" "var2 \<noteq> 0" using assms by auto
  have guard: "\<not> (var2 <s var1 \<or> var1 <s 0 \<or> var2 <s 0)"
    using assms by (simp add: word_sless_alt)
  obtain w r where
    loop: "div_s_loop 15 (L_deposit_l var2) (0, L_deposit_l var1, g) = (w, r, g)"
    and w: "sint w = sint (0 :: Word16) * 2 ^ 15 + (sint (L_deposit_l var1) * 2 ^ 15) div sint (L_deposit_l var2)"
    using div_s_loop_correct [of "L_deposit_l var1" "L_deposit_l var2" 0 15 g] assms
      sint16_range [of var2]
    by (auto simp add: L_deposit_l_def sint_scast_16_32)
  from w have "sint w = (sint var1 * 32768) div sint var2"
    by (simp add: L_deposit_l_def sint_scast_16_32)
  with loop guard ne False show ?thesis
    by (simp add: div_s_def Let_def BASOP_CHECK_00)
qed


section \<open>Left shifts by non-negative counts\<close>

lemma unat_nonneg16:
  fixes w :: Word16
  assumes "0 \<le> sint w"
  shows "unat w = nat (sint w)"
proof -
  have "uint w = take_bit 16 (sint w)"
    using uint_sint [of w] by simp
  also have "\<dots> = sint w"
    using assms sint16_range [of w] by (intro take_bit_int_eq_self) simp_all
  finally have "uint w = sint w" .
  then show ?thesis by (metis nat_uint_eq)
qed

lemma sint_word_of_int32:
  assumes "- 2147483648 \<le> k" "k \<le> 2147483647"
  shows "sint (word_of_int k :: Word32) = k"
  using assms by (simp add: sint_sbintrunc' signed_take_bit_int_eq_self)

lemma sint_word_of_int16:
  assumes "- 32768 \<le> k" "k \<le> 32767"
  shows "sint (word_of_int k :: Word16) = k"
  using assms by (simp add: sint_sbintrunc' signed_take_bit_int_eq_self)

lemma extract_l_word_of_int: "extract_l (word_of_int k) = word_of_int k"
  unfolding extract_l_def
  by (rule bit_word_eqI) (auto simp add: bit_simps)

lemma fits16_iff:
  fixes R :: Word32
  shows "(R = scast (ucast R :: Word16)) = (- 32768 \<le> sint R \<and> sint R \<le> 32767)"
proof
  assume "R = scast (ucast R :: Word16)"
  then have "sint R = sint (ucast R :: Word16)"
    using sint_scast_16_32 [of "ucast R"] by simp
  then show "- 32768 \<le> sint R \<and> sint R \<le> 32767"
    using sint16_range [of "ucast R"] by simp
next
  assume a: "- 32768 \<le> sint R \<and> sint R \<le> 32767"
  then have "sint (extract_l R) = sint R"
    by (intro sint_extract_l_small) simp_all
  then have "sint (scast (ucast R :: Word16) :: Word32) = sint R"
    by (simp add: sint_scast_16_32 extract_l_def)
  then have "(scast (ucast R :: Word16) :: Word32) = R"
    by (rule signed_word_eqI)
  then show "R = scast (ucast R :: Word16)"
    by simp
qed

lemma pow2_le: "n \<le> m \<Longrightarrow> (2::int) ^ n \<le> 2 ^ m"
  by (rule power_increasing) simp_all

lemma prod_bound:
  fixes s :: int
  assumes "- 32768 \<le> s" "s \<le> 32767" "0 \<le> q" "q \<le> 32768"
  shows "- 1073741824 \<le> s * q \<and> s * q \<le> 1073741824"
proof -
  have "\<bar>s * q\<bar> \<le> 32768 * 32768"
    unfolding abs_mult using assms by (intro mult_mono) simp_all
  then show ?thesis by linarith
qed

lemma sint_pow2_32:
  assumes "n \<le> 30"
  shows "sint (push_bit n 1 :: Word32) = 2 ^ n"
proof -
  have le: "(2::int) ^ n \<le> 2 ^ 30" using assms by (rule pow2_le)
  have ge: "(0::int) \<le> 2 ^ n" by simp
  have "(push_bit n 1 :: Word32) = word_of_int (2 ^ n)"
    by (simp add: push_bit_of_1)
  then have "sint (push_bit n 1 :: Word32) = signed_take_bit 31 (2 ^ n)"
    by (simp only: sint_sbintrunc') simp
  also have "\<dots> = 2 ^ n"
  proof (rule signed_take_bit_int_eq_self)
    show "- (2 ^ 31) \<le> (2::int) ^ n" by (rule order_trans [of _ 0]) simp_all
    show "(2::int) ^ n < 2 ^ 31" using le by simp
  qed
  finally show ?thesis .
qed

lemma shl_product:
  assumes "n \<le> 15"
  shows "sint ((scast (var1 :: Word16) :: Word32) * push_bit n 1) = sint var1 * 2 ^ n"
proof -
  have le: "(2::int) ^ n \<le> 2 ^ 15" using assms by (rule pow2_le)
  have "sint ((scast var1 :: Word32) * push_bit n 1)
      = signed_take_bit 31 (sint (scast var1 :: Word32) * sint (push_bit n 1 :: Word32))"
    by (simp only: sint_word_ariths) simp
  also have "\<dots> = signed_take_bit 31 (sint var1 * 2 ^ n)"
    using assms by (simp only: sint_scast_16_32 sint_pow2_32)
  also have "\<dots> = sint var1 * 2 ^ n"
    using prod_bound [of "sint var1" "2 ^ n"] sint16_range [of var1] le
    by (intro signed_take_bit_int_eq_self) simp_all
  finally show ?thesis .
qed

lemma word32_of_sint:
  fixes R :: Word32
  assumes "sint R = p"
  shows "R = word_of_int p"
proof -
  have "word_of_int (sint R) = R" by simp
  with assms show ?thesis by simp
qed

lemma big_factor_out_of_range:
  fixes s q :: int
  assumes "s \<noteq> 0" "65536 \<le> q"
  shows "s * q < - 32768 \<or> 32767 < s * q"
proof (cases "0 < s")
  case True
  then have "1 * q \<le> s * q" using assms(2) by (intro mult_right_mono) simp_all
  then have "q \<le> s * q" by (simp only: mult_1)
  with assms(2) show ?thesis by linarith
next
  case False
  with assms have "s \<le> - 1" by simp
  then have "s * q \<le> (- 1) * q" using assms(2) by (intro mult_right_mono) simp_all
  then have "s * q \<le> - q" by (simp only: mult_minus_left mult_1)
  with assms(2) show ?thesis by linarith
qed

lemma big_shift_out_of_range:
  fixes s :: int
  assumes "s \<noteq> 0" "16 \<le> n"
  shows "s * 2 ^ n < - 32768 \<or> 32767 < s * 2 ^ n"
proof -
  have "(65536::int) \<le> 2 ^ n"
    using pow2_le [OF assms(2)] by simp
  with assms(1) show ?thesis by (rule big_factor_out_of_range)
qed

lemma product_sign:
  fixes s :: int
  assumes "32767 < s * 2 ^ n \<or> s * 2 ^ n < - 32768"
  shows "(0 < s) = (32767 < s * 2 ^ n)"
proof (cases "0 < s")
  case True
  then have "0 < s * 2 ^ n" by simp
  with assms True show ?thesis by auto
next
  case False
  then have "s * 2 ^ n \<le> 0" by (simp add: mult_le_0_iff)
  with False show ?thesis by auto
qed

lemma shl_loc_nonneg:
  assumes "0 \<le> sint var2"
  shows "shl_loc var1 var2 =
     (if sint var1 * 2 ^ nat (sint var2) < - 32768 then (MIN_16, True)
      else if 32767 < sint var1 * 2 ^ nat (sint var2) then (MAX_16, True)
      else (word_of_int (sint var1 * 2 ^ nat (sint var2)), False))"
proof -
  let ?n = "nat (sint var2)" and ?p = "sint var1 * 2 ^ nat (sint var2)"
  have n: "unat var2 = ?n" using assms by (rule unat_nonneg16)
  have nn: "\<not> var2 <s 0" using assms by (simp add: word_sless_alt)
  have gt: "15 <s var2 \<longleftrightarrow> 16 \<le> ?n" by (simp add: word_sless_alt) linarith
  have pos: "0 <s var1 \<longleftrightarrow> 0 < sint var1" by (simp add: word_sless_alt)
  show ?thesis
  proof (cases "16 \<le> ?n")
    case True
    show ?thesis
    proof (cases "var1 = 0")
      case True
      with nn show ?thesis
        by (simp add: shl_loc.simps [of 0 var2] extract_l_def)
    next
      case False
      then have s0: "sint var1 \<noteq> 0" by (metis signed_eq_0_iff)
      have out: "?p < - 32768 \<or> 32767 < ?p"
        using big_shift_out_of_range [OF s0 True] .
      then have sg: "(0 < sint var1) = (32767 < ?p)"
        by (intro product_sign) auto
      from out sg False \<open>16 \<le> ?n\<close> show ?thesis
        by (auto simp add: shl_loc.simps [of var1 var2] nn gt pos Let_def)
    qed
  next
    case False
    then have le: "?n \<le> 15" by simp
    let ?R = "(scast var1 :: Word32) * push_bit ?n 1"
    have R2: "sint ?R = ?p"
      using shl_product [OF le, of var1] .
    then have R1: "?R = word_of_int ?p"
      by (rule word32_of_sint)
    note R = R1 R2
    have fit: "(?R \<noteq> scast (ucast ?R :: Word16)) = (?p < - 32768 \<or> 32767 < ?p)"
      using fits16_iff [of ?R] R(2) by auto
    show ?thesis
    proof (cases "?p < - 32768 \<or> 32767 < ?p")
      case True
      then have sg: "(0 < sint var1) = (32767 < ?p)"
        by (intro product_sign) auto
      from True sg fit False show ?thesis
        by (auto simp add: shl_loc.simps [of var1 var2] nn gt pos n Let_def)
    next
      case out: False
      with fit False have sh: "shl_loc var1 var2 = (extract_l ?R, False)"
        by (simp add: shl_loc.simps [of var1 var2] nn gt n Let_def)
      have e: "extract_l ?R = word_of_int ?p"
        by (simp only: R1 extract_l_word_of_int)
      from out have o: "\<not> ?p < - 32768" "\<not> 32767 < ?p" by simp_all
      show ?thesis
        unfolding sh e by (simp only: o if_False)
    qed
  qed
qed

section \<open>Normalisation\<close>

lemma sint_of_nat16:
  assumes "n \<le> 32767"
  shows "sint (of_nat n :: Word16) = int n"
proof -
  have "(of_nat n :: Word16) = word_of_int (int n)" by simp
  then show ?thesis
    using assms by (simp only: sint_word_of_int16)
qed

lemma small_exponent:
  fixes s :: int
  assumes "0 < s" "s * 2 ^ n \<le> 32767"
  shows "n \<le> 14"
proof (rule ccontr)
  assume "\<not> n \<le> 14"
  then have "15 \<le> n" by simp
  then have "(2::int) ^ 15 \<le> 2 ^ n" by (rule pow2_le)
  moreover have "1 * 2 ^ n \<le> s * 2 ^ n"
    using assms(1) by (intro mult_right_mono) simp_all
  then have "(2::int) ^ n \<le> s * 2 ^ n" by (simp only: mult_1)
  ultimately show False using assms(2) by simp
qed

lemma norm_s_loop_pos:
  assumes "0 < sint v"
  shows "\<exists>n. norm_s_loop v k = Some (k + of_nat n) \<and>
           16384 \<le> sint v * 2 ^ n \<and> sint v * 2 ^ n \<le> 32767"
  using assms
proof (induction "nat (16384 - sint v)" arbitrary: v k rule: less_induct)
  case less
  show ?case
  proof (cases "v <s 0x4000")
    case False
    then have "16384 \<le> sint v" by (simp add: word_sless_alt)
    moreover have "norm_s_loop v k = Some k"
      using False by (subst norm_s_loop.simps) simp
    ultimately show ?thesis
      using sint16_range [of v] by (intro exI [of _ 0]) simp
  next
    case True
    then have lt: "sint v < 16384" by (simp add: word_sless_alt)
    have d: "sint (v * 2) = 2 * sint v"
      using less.prems lt by (intro sint_double16) simp_all
    have "nat (16384 - sint (v * 2)) < nat (16384 - sint v)"
      using less.prems lt d by simp
    moreover have "0 < sint (v * 2)" using less.prems d by simp
    ultimately obtain n where
      n: "norm_s_loop (v * 2) (k + 1) = Some (k + 1 + of_nat n)"
         "16384 \<le> sint (v * 2) * 2 ^ n" "sint (v * 2) * 2 ^ n \<le> 32767"
      using less.hyps [of "v * 2" "k + 1"] by blast
    have "norm_s_loop v k = norm_s_loop (v * 2) (k + 1)"
      using True by (subst norm_s_loop.simps) simp
    with n d show ?thesis
      by (intro exI [of _ "Suc n"]) (simp add: algebra_simps)
  qed
qed

lemma bit14_of_range:
  fixes p :: int
  shows "16384 \<le> p \<Longrightarrow> p \<le> 32767 \<Longrightarrow> bit (word_of_int p :: Word16) 14 \<and> \<not> bit (word_of_int p :: Word16) 15"
    and "- 32768 \<le> p \<Longrightarrow> p \<le> - 16385 \<Longrightarrow> \<not> bit (word_of_int p :: Word16) 14 \<and> bit (word_of_int p :: Word16) 15"
proof -
  assume a: "16384 \<le> p" "p \<le> 32767"
  then have "p div 16384 = 1" "p div 32768 = 0" by simp_all
  then show "bit (word_of_int p :: Word16) 14 \<and> \<not> bit (word_of_int p :: Word16) 15"
    by (simp only: bit_word_of_int_iff) (simp add: bit_iff_odd_drop_bit drop_bit_eq_div)
next
  assume a: "- 32768 \<le> p" "p \<le> - 16385"
  then have "p div 16384 = - 2" "p div 32768 = - 1" by simp_all
  then show "\<not> bit (word_of_int p :: Word16) 14 \<and> bit (word_of_int p :: Word16) 15"
    by (simp only: bit_word_of_int_iff) (simp add: bit_iff_odd_drop_bit drop_bit_eq_div)
qed

lemma shl_normal:
  assumes "n \<le> 14" "- 32768 \<le> sint v * 2 ^ n" "sint v * 2 ^ n \<le> 32767"
  shows "shl v (of_nat n) = word_of_int (sint v * 2 ^ n)"
proof -
  have "sint (of_nat n :: Word16) = int n"
    using assms(1) by (intro sint_of_nat16) simp
  then show ?thesis
    using assms shl_loc_nonneg [of "of_nat n" v] by (simp add: shl_def)
qed

lemma multiple_below:
  fixes a :: int
  assumes "n \<le> 15" "a * 2 ^ n \<le> 32767"
  shows "(a + 1) * 2 ^ n \<le> 32768"
proof -
  have "(2::int) ^ 15 = 2 ^ (15 - n) * 2 ^ n"
    using assms(1) by (simp flip: power_add)
  then have "a * 2 ^ n < 2 ^ (15 - n) * 2 ^ n"
    using assms(2) by simp
  then have "a < 2 ^ (15 - n)" by simp
  then have "a + 1 \<le> 2 ^ (15 - n)" by simp
  then have "(a + 1) * 2 ^ n \<le> 2 ^ (15 - n) * 2 ^ n"
    by (intro mult_right_mono) simp_all
  with \<open>(2::int) ^ 15 = 2 ^ (15 - n) * 2 ^ n\<close> show ?thesis by simp
qed

lemma norm_s_pos:
  assumes "0 < sint v"
  shows "\<exists>n. norm_s v = Some n \<and> bit (shl v n) 14 \<and> \<not> bit (shl v n) 15"
proof -
  obtain n where n: "norm_s_loop v 0 = Some (0 + of_nat n)"
    "16384 \<le> sint v * 2 ^ n" "sint v * 2 ^ n \<le> 32767"
    using norm_s_loop_pos [OF assms, of 0] by blast
  have n14: "n \<le> 14" using assms n(3) by (rule small_exponent)
  have v: "v \<noteq> 0" "v \<noteq> 0xffff" "\<not> v <s 0"
    using assms by (auto simp add: word_sless_alt)
  have "norm_s v = Some (of_nat n)"
    using n(1) v by (simp add: norm_s_def)
  moreover have "shl v (of_nat n) = word_of_int (sint v * 2 ^ n)"
    using n14 n(2,3) by (intro shl_normal) simp_all
  ultimately show ?thesis
    using bit14_of_range(1) [OF n(2,3)] by simp
qed

lemma sint_not16: "sint (NOT (v :: Word16)) = - sint v - 1"
proof -
  have "sint (NOT v) = signed_take_bit 16 (- sint v - 1)"
    using signed_not_eq [of v, where ?'a = int] by (simp add: not_int_def)
  also have "\<dots> = - sint v - 1"
    using sint16_range [of v] by (intro signed_take_bit_int_eq_self) simp_all
  finally show ?thesis .
qed

lemma norm_s_neg:
  assumes "sint v < 0" "v \<noteq> - 1"
  shows "\<exists>n. norm_s v = Some n \<and> \<not> bit (shl v n) 14 \<and> bit (shl v n) 15"
proof -
  let ?a = "- sint v - 1"
  have "sint v \<noteq> - 1"
    using assms(2) by (metis signed_word_eqI sint_n1)
  with assms(1) have pos: "0 < sint (NOT v)" by (simp add: sint_not16)
  obtain n where n: "norm_s_loop (NOT v) 0 = Some (0 + of_nat n)"
    "16384 \<le> sint (NOT v) * 2 ^ n" "sint (NOT v) * 2 ^ n \<le> 32767"
    using norm_s_loop_pos [OF pos, of 0] by blast
  have n14: "n \<le> 14" using pos n(3) by (rule small_exponent)
  have q: "16384 \<le> ?a * 2 ^ n" "?a * 2 ^ n \<le> 32767"
    using n(2,3) by (simp_all add: sint_not16)
  have "(?a + 1) * 2 ^ n \<le> 32768"
    using n14 q(2) by (intro multiple_below) simp_all
  then have lo: "- 32768 \<le> sint v * 2 ^ n" by (simp add: algebra_simps)
  have "sint v * 2 ^ n = - (?a * 2 ^ n) - 2 ^ n" by (simp add: algebra_simps)
  moreover have "(1::int) \<le> 2 ^ n" by simp
  ultimately have hi: "sint v * 2 ^ n \<le> - 16385" using q(1) by linarith
  have v: "v \<noteq> 0" "v \<noteq> 0xffff" "v <s 0"
    using assms by (auto simp add: word_sless_alt)
  have "norm_s v = Some (of_nat n)"
    using n(1) v by (simp add: norm_s_def)
  moreover have "shl v (of_nat n) = word_of_int (sint v * 2 ^ n)"
    using n14 lo hi by (intro shl_normal) simp_all
  ultimately show ?thesis
    using bit14_of_range(2) [OF lo hi] by simp
qed

lemma norm_s_minus_1: "norm_s (- 1) = Some 15 \<and> \<not> bit (shl (- 1) 15) 14 \<and> bit (shl (- 1) 15) 15"
  by code_simp

section \<open>The shift loop of L_shl and the product of L_mult\<close>

lemma unat_pos16:
  fixes w :: Word16
  assumes "0 < sint w"
  shows "unat w = nat (sint w)" "0 < nat (sint w)"
  using assms unat_nonneg16 [of w] by simp_all

lemma L_shl_loop_eq:
  "L_shl_loop (Suc m) L out =
     (if sint L * 2 ^ Suc m < - 2147483648 then (MIN_32, True)
      else if 2147483647 < sint L * 2 ^ Suc m then (MAX_32, True)
      else (word_of_int (sint L * 2 ^ Suc m), False))"
proof (induction m arbitrary: L out)
  case 0
  show ?case
  proof (cases "0x3fffffff <s L \<or> L <s 0xc0000000")
    case True
    then show ?thesis by (auto simp add: word_sless_alt)
  next
    case False
    then have r: "- 1073741824 \<le> sint L" "sint L < 1073741824"
      by (simp_all add: word_sless_alt)
    then have d: "sint (L * 2) = 2 * sint L" by (rule sint_double32)
    then have "L * 2 = word_of_int (2 * sint L)" by (rule word32_of_sint)
    then have "L * 2 = word_of_int (sint L * 2)" by (simp only: mult.commute)
    with False r show ?thesis by (simp add: word_sless_alt)
  qed
next
  case (Suc m)
  have two: "(2::int) \<le> 2 ^ Suc m" by simp
  show ?case
  proof (cases "0x3fffffff <s L")
    case True
    then have "1073741824 \<le> sint L" by (simp add: word_sless_alt)
    then have "1073741824 * 2 ^ Suc (Suc m) \<le> sint L * 2 ^ Suc (Suc m)"
      by (intro mult_right_mono) simp_all
    moreover have "(4::int) \<le> 2 ^ Suc (Suc m)" by simp
    ultimately have "2147483647 < sint L * 2 ^ Suc (Suc m)" by linarith
    with True show ?thesis by (simp add: L_shl_loop.simps(2) [of "Suc m"])
  next
    case F1: False
    show ?thesis
    proof (cases "L <s 0xc0000000")
      case True
      then have "sint L \<le> - 1073741825" by (simp add: word_sless_alt)
      then have "sint L * 2 ^ Suc (Suc m) \<le> (- 1073741825) * 2 ^ Suc (Suc m)"
        by (intro mult_right_mono) simp_all
      moreover have "(4::int) \<le> 2 ^ Suc (Suc m)" by simp
      ultimately have "sint L * 2 ^ Suc (Suc m) < - 2147483648" by linarith
      with True F1 show ?thesis by (simp add: L_shl_loop.simps(2) [of "Suc m"])
    next
      case False
      with F1 have r: "- 1073741824 \<le> sint L" "sint L < 1073741824"
        by (simp_all add: word_sless_alt)
      then have d: "sint (L * 2) = 2 * sint L" by (rule sint_double32)
      have "L_shl_loop (Suc (Suc m)) L out = L_shl_loop (Suc m) (L * 2) (L * 2)"
        using F1 False by (simp add: L_shl_loop.simps(2) [of "Suc m"])
      also have "\<dots> =
        (if sint (L * 2) * 2 ^ Suc m < - 2147483648 then (MIN_32, True)
         else if 2147483647 < sint (L * 2) * 2 ^ Suc m then (MAX_32, True)
         else (word_of_int (sint (L * 2) * 2 ^ Suc m), False))"
        by (rule Suc.IH)
      also have "sint (L * 2) * 2 ^ Suc m = sint L * 2 ^ Suc (Suc m)"
        by (simp add: d)
      finally show ?thesis .
    qed
  qed
qed

lemma mult16_bound:
  fixes s1 s2 :: int
  assumes "- 32768 \<le> s1" "s1 \<le> 32767" "- 32768 \<le> s2" "s2 \<le> 32767"
    and "\<not> (s1 = - 32768 \<and> s2 = - 32768)"
  shows "- 1073709056 \<le> s1 * s2 \<and> s1 * s2 \<le> 1073709056"
proof -
  have "\<bar>s1\<bar> * \<bar>s2\<bar> \<le> 1073709056"
  proof (cases "s1 = - 32768")
    case True
    with assms have "\<bar>s2\<bar> \<le> 32767" by simp
    moreover have "\<bar>s1\<bar> \<le> 32768" using assms by simp
    ultimately have "\<bar>s1\<bar> * \<bar>s2\<bar> \<le> 32768 * 32767"
      by (intro mult_mono) simp_all
    then show ?thesis by simp
  next
    case False
    with assms have "\<bar>s1\<bar> \<le> 32767" by simp
    moreover have "\<bar>s2\<bar> \<le> 32768" using assms by simp
    ultimately have "\<bar>s1\<bar> * \<bar>s2\<bar> \<le> 32767 * 32768"
      by (intro mult_mono) simp_all
    then show ?thesis by simp
  qed
  then have "\<bar>s1 * s2\<bar> \<le> 1073709056" by (simp only: abs_mult)
  then show ?thesis by linarith
qed

lemma sint_mult16:
  "sint ((scast (v1 :: Word16) :: Word32) * scast (v2 :: Word16)) = sint v1 * sint v2"
proof -
  have b: "- 1073741824 \<le> sint v1 * sint v2 \<and> sint v1 * sint v2 \<le> 1073741824"
  proof (cases "sint v1 = - 32768 \<and> sint v2 = - 32768")
    case True
    then show ?thesis by simp
  next
    case False
    then show ?thesis
      using mult16_bound [of "sint v1" "sint v2"] sint16_range [of v1] sint16_range [of v2]
      by simp
  qed
  have "sint ((scast v1 :: Word32) * scast v2)
      = signed_take_bit 31 (sint (scast v1 :: Word32) * sint (scast v2 :: Word32))"
    by (simp only: sint_word_ariths) simp
  also have "\<dots> = signed_take_bit 31 (sint v1 * sint v2)"
    by (simp only: sint_scast_16_32)
  also have "\<dots> = sint v1 * sint v2"
    using b by (intro signed_take_bit_int_eq_self) simp_all
  finally show ?thesis .
qed

lemma L_mult_loc_eq:
  "L_mult_loc v1 v2 =
     (if sint v1 = - 32768 \<and> sint v2 = - 32768 then (MAX_32, True)
      else (word_of_int (2 * (sint v1 * sint v2)), False))"
proof -
  let ?P = "(scast v1 :: Word32) * scast v2"
  have P: "sint ?P = sint v1 * sint v2" by (rule sint_mult16)
  have edge: "(?P = 0x40000000) = (sint v1 = - 32768 \<and> sint v2 = - 32768)"
  proof
    assume "?P = 0x40000000"
    then have "sint ?P = 1073741824" by simp
    then have "sint v1 * sint v2 = 1073741824" by (simp only: P)
    then show "sint v1 = - 32768 \<and> sint v2 = - 32768"
      using mult16_bound [of "sint v1" "sint v2"] sint16_range [of v1] sint16_range [of v2]
      by fastforce
  next
    assume "sint v1 = - 32768 \<and> sint v2 = - 32768"
    then have "sint ?P = sint (0x40000000 :: Word32)" by (simp add: P)
    then show "?P = 0x40000000" by (rule signed_word_eqI)
  qed
  show ?thesis
  proof (cases "sint v1 = - 32768 \<and> sint v2 = - 32768")
    case True
    with edge show ?thesis by (simp add: L_mult_loc_def)
  next
    case False
    then have b: "- 1073709056 \<le> sint v1 * sint v2 \<and> sint v1 * sint v2 \<le> 1073709056"
      using mult16_bound [of "sint v1" "sint v2"] sint16_range [of v1] sint16_range [of v2]
      by simp
    then have "sint (?P * 2) = 2 * sint ?P"
      by (intro sint_double32) (simp_all add: P)
    then have "?P * 2 = word_of_int (2 * (sint v1 * sint v2))"
      unfolding P by (rule word32_of_sint)
    with False edge show ?thesis by (simp add: L_mult_loc_def Let_def)
  qed
qed

lemma sint_L_mult:
  assumes "\<not> (sint v1 = - 32768 \<and> sint v2 = - 32768)"
  shows "sint (L_mult v1 v2) = 2 * (sint v1 * sint v2)"
proof -
  have b: "- 1073709056 \<le> sint v1 * sint v2 \<and> sint v1 * sint v2 \<le> 1073709056"
    using assms mult16_bound [of "sint v1" "sint v2"] sint16_range [of v1] sint16_range [of v2]
    by simp
  have "L_mult v1 v2 = word_of_int (2 * (sint v1 * sint v2))"
    using assms by (simp only: L_mult_def L_mult_loc_eq if_False fst_conv)
  moreover have "sint (word_of_int (2 * (sint v1 * sint v2)) :: Word32) = 2 * (sint v1 * sint v2)"
    using b by (intro sint_word_of_int32) linarith+
  ultimately show ?thesis by (simp only:)
qed

section \<open>Saturation: the clamped value and what BASOP_CHECK is told\<close>

lemma counted_0: "counted 0 g = g"
  by (simp add: counted_def)

lemma counted_counted: "counted n (counted m g) = counted (m + n) g"
  by (simp add: counted_def add.assoc)

lemma BASOP_CHECK_counted: "BASOP_CHECK x y g = counted (of_bool x + of_bool y) g"
  by (cases x; cases y) (simp_all add: BASOP_CHECK_def counted_def Let_def)

lemma counted_fields:
  "Overflow (counted n g) = Overflow g"
  "overflow_warning_enable (counted n g) = overflow_warning_enable g"
  "overflow_count (counted n g) =
     (if overflow_warning_enable g \<noteq> 0 then overflow_count g + word_of_nat n
      else overflow_count g)"
  by (simp_all add: counted_def)

lemma saturate_globals_counted:
  "saturate_globals L g = counted (of_bool (snd (saturate_loc L))) g"
  by (simp add: saturate_globals_def extract_l_globals_def BASOP_CHECK_counted counted_0)

lemma L_mult_globals_counted:
  "L_mult_globals v w g = counted (of_bool (snd (L_mult_loc v w))) g"
  by (simp add: L_mult_globals_def BASOP_CHECK_counted)

lemma L_add_globals_counted:
  "L_add_globals a b g = counted (of_bool (snd (L_add_loc a b))) g"
  by (simp add: L_add_globals_def BASOP_CHECK_counted)

lemma L_sub_globals_counted:
  "L_sub_globals a b g = counted (of_bool (snd (L_sub_loc a b))) g"
  by (simp add: L_sub_globals_def BASOP_CHECK_counted)

lemma L_mac_globals_counted:
  "L_mac_globals L v w g =
     counted (of_bool (snd (L_mult_loc v w)) + of_bool (snd (L_add_loc L (L_mult v w)))) g"
  by (simp add: L_mac_globals_def L_mult_globals_counted L_add_globals_counted
      BASOP_CHECK_00 counted_counted)

lemma L_msu_globals_counted:
  "L_msu_globals L v w g =
     counted (of_bool (snd (L_mult_loc v w)) + of_bool (snd (L_sub_loc L (L_mult v w)))) g"
  by (simp add: L_msu_globals_def L_mult_globals_counted L_sub_globals_counted
      BASOP_CHECK_00 counted_counted)

lemma L_mac0_globals_counted:
  "L_mac0_globals L v w g = counted (of_bool (snd (L_add_loc L (L_mult0 v w)))) g"
  by (simp add: L_mac0_globals_def L_mult0_globals_def L_add_globals_counted BASOP_CHECK_00)

lemma L_msu0_globals_counted:
  "L_msu0_globals L v w g = counted (of_bool (snd (L_sub_loc L (L_mult0 v w)))) g"
  by (simp add: L_msu0_globals_def L_mult0_globals_def L_sub_globals_counted BASOP_CHECK_00)

lemma mac_r_globals_counted:
  "mac_r_globals L v w g =
     counted (of_bool (snd (L_mult_loc v w)) + of_bool (snd (L_add_loc L (L_mult v w)))
              + of_bool (snd (L_add_loc (L_mac L v w) 0x00008000))) g"
  by (simp add: mac_r_globals_def extract_h_globals_def L_mac_globals_counted
      L_add_globals_counted BASOP_CHECK_00 counted_counted)

lemma msu_r_globals_counted:
  "msu_r_globals L v w g =
     counted (of_bool (snd (L_mult_loc v w)) + of_bool (snd (L_sub_loc L (L_mult v w)))
              + of_bool (snd (L_add_loc (L_msu L v w) 0x00008000))) g"
  by (simp add: msu_r_globals_def extract_h_globals_def L_msu_globals_counted
      L_add_globals_counted BASOP_CHECK_00 counted_counted)


lemma sint_extremes:
  "sint MAX_16 = 32767" "sint MIN_16 = - 32768"
  "sint MAX_32 = 2147483647" "sint MIN_32 = - 2147483648"
  by (simp_all add: MAX_16_def MIN_16_def MAX_32_def MIN_32_def)

lemma add_saturates:
  assumes "\<not> fits16 (sint a + sint b)"
  shows "sint (add a b) = clamp (sint a + sint b) (- 32768) 32767"
    and "snd (saturate_loc (scast a + scast b))"
    and "add_globals a b g = counted 1 g"
proof -
  show "sint (add a b) = clamp (sint a + sint b) (- 32768) 32767" by (rule sint_add)
  show f: "snd (saturate_loc (scast a + scast b))"
    using assms by (auto simp add: saturate_loc_eq sint_wide_sum fits16_def)
  then show "add_globals a b g = counted 1 g"
    by (simp add: add_globals_def saturate_globals_counted)
qed

lemma sub_saturates:
  assumes "\<not> fits16 (sint a - sint b)"
  shows "sint (sub a b) = clamp (sint a - sint b) (- 32768) 32767"
    and "snd (saturate_loc (scast a - scast b))"
    and "sub_globals a b g = counted 1 g"
proof -
  show "sint (sub a b) = clamp (sint a - sint b) (- 32768) 32767" by (rule sint_sub)
  show f: "snd (saturate_loc (scast a - scast b))"
    using assms by (auto simp add: saturate_loc_eq sint_wide_diff fits16_def)
  then show "sub_globals a b g = counted 1 g"
    by (simp add: sub_globals_def saturate_globals_counted)
qed

lemma shl_saturates:
  assumes "0 \<le> sint n" "\<not> fits16 (sint a * 2 ^ nat (sint n))"
  shows "sint (shl a n) = clamp (sint a * 2 ^ nat (sint n)) (- 32768) 32767"
    and "snd (shl_loc a n)"
    and "shl_globals a n g = counted 1 g"
proof -
  define p where "p = sint a * 2 ^ nat (sint n)"
  have out: "p < - 32768 \<or> 32767 < p"
    using assms(2) unfolding fits16_def p_def by linarith
  have loc: "shl_loc a n = (if p < - 32768 then (MIN_16, True) else (MAX_16, True))"
    using shl_loc_nonneg [OF assms(1), of a, folded p_def] out by auto
  have "sint (shl a n) = clamp p (- 32768) 32767"
    using out by (auto simp add: shl_def loc clamp_def sint_extremes)
  then show "sint (shl a n) = clamp (sint a * 2 ^ nat (sint n)) (- 32768) 32767"
    by (simp only: p_def)
  show f: "snd (shl_loc a n)" by (simp add: loc)
  have "\<not> n <s 0" using assms(1) by (simp add: word_sless_alt)
  with f show "shl_globals a n g = counted 1 g"
    by (simp add: shl_globals.simps [of a n g] BASOP_CHECK_counted)
qed

lemma L_shl_saturates:
  assumes "0 < sint n" "\<not> fits32 (sint L * 2 ^ nat (sint n))"
  shows "sint (L_shl L n) = clamp (sint L * 2 ^ nat (sint n)) (- 2147483648) 2147483647"
    and "snd (L_shl_loc L n)"
    and "L_shl_globals L n g = counted 1 g"
proof -
  define p where "p = sint L * 2 ^ nat (sint n)"
  have out: "p < - 2147483648 \<or> 2147483647 < p"
    using assms(2) unfolding fits32_def p_def by linarith
  obtain m where m: "nat (sint n) = Suc m"
    using assms(1) by (cases "nat (sint n)") simp_all
  have nle: "\<not> n \<le>s 0" using assms(1) by (simp add: word_sle_eq)
  have "L_shl_loc L n = L_shl_loop (Suc m) L 0"
    using nle unat_pos16(1) [OF assms(1)] m by (simp add: L_shl_loc.simps [of L n])
  also have "\<dots> =
     (if p < - 2147483648 then (MIN_32, True)
      else if 2147483647 < p then (MAX_32, True)
      else (word_of_int p, False))"
    unfolding p_def m by (rule L_shl_loop_eq)
  finally have loc: "L_shl_loc L n = (if p < - 2147483648 then (MIN_32, True) else (MAX_32, True))"
    using out by auto
  have "sint (L_shl L n) = clamp p (- 2147483648) 2147483647"
    using out by (auto simp add: L_shl_def loc clamp_def sint_extremes)
  then show "sint (L_shl L n) = clamp (sint L * 2 ^ nat (sint n)) (- 2147483648) 2147483647"
    by (simp only: p_def)
  show f: "snd (L_shl_loc L n)" by (simp add: loc)
  with nle show "L_shl_globals L n g = counted 1 g"
    by (simp add: L_shl_globals.simps [of L n g] BASOP_CHECK_counted)
qed

lemma L_add_saturates:
  assumes "\<not> fits32 (sint L1 + sint L2)"
  shows "sint (L_add L1 L2) = clamp (sint L1 + sint L2) (- 2147483648) 2147483647"
    and "snd (L_add_loc L1 L2)"
    and "L_add_globals L1 L2 g = counted 1 g"
proof -
  show "sint (L_add L1 L2) = clamp (sint L1 + sint L2) (- 2147483648) 2147483647"
    using assms by (auto simp add: L_add_def L_add_loc_eq clamp_def sint_extremes fits32_def)
  show f: "snd (L_add_loc L1 L2)"
    using assms by (auto simp add: L_add_loc_eq fits32_def)
  then show "L_add_globals L1 L2 g = counted 1 g"
    by (simp add: L_add_globals_counted)
qed

lemma L_sub_saturates:
  assumes "\<not> fits32 (sint L1 - sint L2)"
  shows "sint (L_sub L1 L2) = clamp (sint L1 - sint L2) (- 2147483648) 2147483647"
    and "snd (L_sub_loc L1 L2)"
    and "L_sub_globals L1 L2 g = counted 1 g"
proof -
  show "sint (L_sub L1 L2) = clamp (sint L1 - sint L2) (- 2147483648) 2147483647"
    using assms by (auto simp add: L_sub_def L_sub_loc_eq clamp_def sint_extremes fits32_def)
  show f: "snd (L_sub_loc L1 L2)"
    using assms by (auto simp add: L_sub_loc_eq fits32_def)
  then show "L_sub_globals L1 L2 g = counted 1 g"
    by (simp add: L_sub_globals_counted)
qed

lemma L_mac_saturates:
  assumes "\<not> fits32 (sint L3 + 2 * (sint v1 * sint v2))"
  shows "sint (L_mac L3 v1 v2) = clamp (sint L3 + 2 * (sint v1 * sint v2)) (- 2147483648) 2147483647"
    and "snd (L_mult_loc v1 v2) \<or> snd (L_add_loc L3 (L_mult v1 v2))"
proof -
  have both: "sint (L_mac L3 v1 v2) = clamp (sint L3 + 2 * (sint v1 * sint v2)) (- 2147483648) 2147483647
      \<and> (snd (L_mult_loc v1 v2) \<or> snd (L_add_loc L3 (L_mult v1 v2)))"
  proof (cases "sint v1 = - 32768 \<and> sint v2 = - 32768")
    case True
    then have m: "L_mult v1 v2 = MAX_32" "snd (L_mult_loc v1 v2)"
      by (simp_all add: L_mult_def L_mult_loc_eq)
    have "0 \<le> sint L3"
      using assms True sint32_range [of L3] by (simp add: fits32_def)
    then show ?thesis
      using True m sint32_range [of L3]
      by (auto simp add: L_mac_def L_add_def L_add_loc_eq clamp_def sint_extremes sint_add32)
  next
    case False
    then have m: "sint (L_mult v1 v2) = 2 * (sint v1 * sint v2)" by (rule sint_L_mult)
    from assms have "\<not> fits32 (sint L3 + sint (L_mult v1 v2))" unfolding m .
    then show ?thesis
      using L_add_saturates(1,2) [of L3 "L_mult v1 v2"] by (simp add: L_mac_def m)
  qed
  then show "sint (L_mac L3 v1 v2) = clamp (sint L3 + 2 * (sint v1 * sint v2)) (- 2147483648) 2147483647"
    and "snd (L_mult_loc v1 v2) \<or> snd (L_add_loc L3 (L_mult v1 v2))"
    by simp_all
qed

lemma L_msu_saturates:
  assumes "\<not> fits32 (sint L3 - 2 * (sint v1 * sint v2))"
  shows "sint (L_msu L3 v1 v2) = clamp (sint L3 - 2 * (sint v1 * sint v2)) (- 2147483648) 2147483647"
    and "snd (L_mult_loc v1 v2) \<or> snd (L_sub_loc L3 (L_mult v1 v2))"
proof -
  have both: "sint (L_msu L3 v1 v2) = clamp (sint L3 - 2 * (sint v1 * sint v2)) (- 2147483648) 2147483647
      \<and> (snd (L_mult_loc v1 v2) \<or> snd (L_sub_loc L3 (L_mult v1 v2)))"
  proof (cases "sint v1 = - 32768 \<and> sint v2 = - 32768")
    case True
    then have m: "L_mult v1 v2 = MAX_32" "snd (L_mult_loc v1 v2)"
      by (simp_all add: L_mult_def L_mult_loc_eq)
    have "sint L3 < 0"
      using assms True sint32_range [of L3] by (simp add: fits32_def)
    then show ?thesis
      using True m sint32_range [of L3]
      by (auto simp add: L_msu_def L_sub_def L_sub_loc_eq clamp_def sint_extremes sint_sub32)
  next
    case False
    then have m: "sint (L_mult v1 v2) = 2 * (sint v1 * sint v2)" by (rule sint_L_mult)
    from assms have "\<not> fits32 (sint L3 - sint (L_mult v1 v2))" unfolding m .
    then show ?thesis
      using L_sub_saturates(1,2) [of L3 "L_mult v1 v2"] by (simp add: L_msu_def m)
  qed
  then show "sint (L_msu L3 v1 v2) = clamp (sint L3 - 2 * (sint v1 * sint v2)) (- 2147483648) 2147483647"
    and "snd (L_mult_loc v1 v2) \<or> snd (L_sub_loc L3 (L_mult v1 v2))"
    by simp_all
qed

subsection \<open>The operators built from \<open>L_mult0\<close>, \<open>L_mac\<close> and \<open>L_msu\<close>\<close>

lemma sint_L_mult0: "sint (L_mult0 v w) = sint v * sint w"
  by (simp add: L_mult0_def sint_mult16)

lemma L_mac0_saturates:
  assumes "\<not> fits32 (sint L3 + sint v1 * sint v2)"
  shows "sint (L_mac0 L3 v1 v2) = clamp (sint L3 + sint v1 * sint v2) (- 2147483648) 2147483647"
    and "snd (L_add_loc L3 (L_mult0 v1 v2))"
proof -
  from assms have a: "\<not> fits32 (sint L3 + sint (L_mult0 v1 v2))"
    unfolding sint_L_mult0 .
  show "sint (L_mac0 L3 v1 v2) = clamp (sint L3 + sint v1 * sint v2) (- 2147483648) 2147483647"
    using L_add_saturates(1) [OF a] by (simp add: L_mac0_def sint_L_mult0)
  show "snd (L_add_loc L3 (L_mult0 v1 v2))"
    using a by (rule L_add_saturates(2))
qed

lemma L_msu0_saturates:
  assumes "\<not> fits32 (sint L3 - sint v1 * sint v2)"
  shows "sint (L_msu0 L3 v1 v2) = clamp (sint L3 - sint v1 * sint v2) (- 2147483648) 2147483647"
    and "snd (L_sub_loc L3 (L_mult0 v1 v2))"
proof -
  from assms have a: "\<not> fits32 (sint L3 - sint (L_mult0 v1 v2))"
    unfolding sint_L_mult0 .
  show "sint (L_msu0 L3 v1 v2) = clamp (sint L3 - sint v1 * sint v2) (- 2147483648) 2147483647"
    using L_sub_saturates(1) [OF a] by (simp add: L_msu0_def sint_L_mult0)
  show "snd (L_sub_loc L3 (L_mult0 v1 v2))"
    using a by (rule L_sub_saturates(2))
qed

lemma L_mac0_counts:
  assumes "\<not> fits32 (sint L3 + sint v1 * sint v2)"
  shows "L_mac0_globals L3 v1 v2 g = counted 1 g"
  using L_mac0_saturates(2) [OF assms] by (simp add: L_mac0_globals_counted)

lemma L_msu0_counts:
  assumes "\<not> fits32 (sint L3 - sint v1 * sint v2)"
  shows "L_msu0_globals L3 v1 v2 g = counted 1 g"
  using L_msu0_saturates(2) [OF assms] by (simp add: L_msu0_globals_counted)

lemma sint_extract_h: "sint (extract_h L) = sint L div 65536"
proof -
  have "extract_h L = extract_l (signed_drop_bit 16 L)"
    unfolding extract_h_def extract_l_def
    by (rule bit_word_eqI) (auto simp add: bit_simps)
  moreover have s: "sint (signed_drop_bit 16 L) = sint L div 65536"
    by (simp add: sint_signed_drop_bit_eq drop_bit_eq_div)
  moreover have "- 32768 \<le> sint L div 65536 \<and> sint L div 65536 \<le> 32767"
    using sint32_range [of L] by arith
  ultimately show ?thesis
    by (simp add: sint_extract_l_small)
qed

lemma sint_L_add: "sint (L_add a b) = clamp (sint a + sint b) (- 2147483648) 2147483647"
  by (auto simp add: L_add_def L_add_loc_eq clamp_def sint_extremes sint_add32)

lemma sint_L_sub: "sint (L_sub a b) = clamp (sint a - sint b) (- 2147483648) 2147483647"
  by (auto simp add: L_sub_def L_sub_loc_eq clamp_def sint_extremes sint_sub32)

lemma L_add_flag: "snd (L_add_loc a b) = (\<not> fits32 (sint a + sint b))"
  by (auto simp add: L_add_loc_eq fits32_def)

lemma L_sub_flag: "snd (L_sub_loc a b) = (\<not> fits32 (sint a - sint b))"
  by (auto simp add: L_sub_loc_eq fits32_def)

lemma unfit_rounded:
  fixes M :: int
  assumes "\<not> fits16 ((M + 32768) div 65536)"
  shows "(2147450880 \<le> M \<and> 32767 < (M + 32768) div 65536) \<or>
         (M < - 2147516416 \<and> (M + 32768) div 65536 < - 32768)"
  using assms unfolding fits16_def by arith

lemma rounding_tail:
  assumes unfit: "\<not> fits16 ((M + 32768) div 65536)"
    and hi: "2147450880 \<le> M \<Longrightarrow> 2147450879 \<le> sint A \<and> (f \<or> 2147483647 < sint A + 32768)"
    and lo: "M < - 2147516416 \<Longrightarrow> sint A = - 2147483648 \<and> f"
  shows "sint (extract_h (L_add A 0x00008000)) = clamp ((M + 32768) div 65536) (- 32768) 32767"
    and "f \<or> snd (L_add_loc A 0x00008000)"
proof -
  have s: "sint (0x00008000 :: Word32) = 32768" by simp
  consider (high) "2147450880 \<le> M" "32767 < (M + 32768) div 65536"
    | (low) "M < - 2147516416" "(M + 32768) div 65536 < - 32768"
    using unfit_rounded [OF unfit] by blast
  then have "sint (extract_h (L_add A 0x00008000)) = clamp ((M + 32768) div 65536) (- 32768) 32767
      \<and> (f \<or> snd (L_add_loc A 0x00008000))"
  proof cases
    case high
    from hi [OF high(1)] have a: "2147450879 \<le> sint A" and fl: "f \<or> 2147483647 < sint A + 32768"
      by simp_all
    have "sint (L_add A 0x00008000) = 2147483647"
      using a sint32_range [of A] by (simp add: sint_L_add clamp_def)
    then have "sint (extract_h (L_add A 0x00008000)) = 32767"
      by (simp add: sint_extract_h)
    moreover have "f \<or> snd (L_add_loc A 0x00008000)"
      using fl by (auto simp add: L_add_flag fits32_def)
    ultimately show ?thesis using high(2) by (simp add: clamp_def)
  next
    case low
    from lo [OF low(1)] have a: "sint A = - 2147483648" and f by simp_all
    have "sint (L_add A 0x00008000) = - 2147450880"
      using a by (simp add: sint_L_add clamp_def)
    then have "sint (extract_h (L_add A 0x00008000)) = - 32768"
      by (simp add: sint_extract_h)
    with \<open>f\<close> low(2) show ?thesis by (simp add: clamp_def)
  qed
  then show "sint (extract_h (L_add A 0x00008000)) = clamp ((M + 32768) div 65536) (- 32768) 32767"
    and "f \<or> snd (L_add_loc A 0x00008000)"
    by simp_all
qed

lemma L_mac_value:
  "(sint v1 = - 32768 \<and> sint v2 = - 32768 \<and> snd (L_mult_loc v1 v2) \<and>
      sint (L_mac L3 v1 v2) = clamp (sint L3 + 2147483647) (- 2147483648) 2147483647) \<or>
   (\<not> (sint v1 = - 32768 \<and> sint v2 = - 32768) \<and>
      sint (L_mac L3 v1 v2) = clamp (sint L3 + 2 * (sint v1 * sint v2)) (- 2147483648) 2147483647 \<and>
      snd (L_add_loc L3 (L_mult v1 v2)) = (\<not> fits32 (sint L3 + 2 * (sint v1 * sint v2))))"
proof (cases "sint v1 = - 32768 \<and> sint v2 = - 32768")
  case True
  then have "L_mult v1 v2 = MAX_32" "snd (L_mult_loc v1 v2)"
    by (simp_all add: L_mult_def L_mult_loc_eq)
  with True show ?thesis
    by (simp add: L_mac_def sint_L_add sint_extremes)
next
  case False
  then have "sint (L_mult v1 v2) = 2 * (sint v1 * sint v2)" by (rule sint_L_mult)
  with False show ?thesis
    by (simp add: L_mac_def sint_L_add L_add_flag)
qed

lemma L_msu_value:
  "(sint v1 = - 32768 \<and> sint v2 = - 32768 \<and> snd (L_mult_loc v1 v2) \<and>
      sint (L_msu L3 v1 v2) = clamp (sint L3 - 2147483647) (- 2147483648) 2147483647) \<or>
   (\<not> (sint v1 = - 32768 \<and> sint v2 = - 32768) \<and>
      sint (L_msu L3 v1 v2) = clamp (sint L3 - 2 * (sint v1 * sint v2)) (- 2147483648) 2147483647 \<and>
      snd (L_sub_loc L3 (L_mult v1 v2)) = (\<not> fits32 (sint L3 - 2 * (sint v1 * sint v2))))"
proof (cases "sint v1 = - 32768 \<and> sint v2 = - 32768")
  case True
  then have "L_mult v1 v2 = MAX_32" "snd (L_mult_loc v1 v2)"
    by (simp_all add: L_mult_def L_mult_loc_eq)
  with True show ?thesis
    by (simp add: L_msu_def sint_L_sub sint_extremes)
next
  case False
  then have "sint (L_mult v1 v2) = 2 * (sint v1 * sint v2)" by (rule sint_L_mult)
  with False show ?thesis
    by (simp add: L_msu_def sint_L_sub L_sub_flag)
qed

lemma mac_r_saturates:
  assumes "\<not> fits16 ((sint L3 + 2 * (sint v1 * sint v2) + 32768) div 65536)"
  shows "sint (mac_r L3 v1 v2) =
      clamp ((sint L3 + 2 * (sint v1 * sint v2) + 32768) div 65536) (- 32768) 32767"
    and "snd (L_mult_loc v1 v2) \<or> snd (L_add_loc L3 (L_mult v1 v2))
       \<or> snd (L_add_loc (L_mac L3 v1 v2) 0x00008000)"
proof -
  let ?M = "sint L3 + 2 * (sint v1 * sint v2)"
  let ?A = "L_mac L3 v1 v2"
  let ?f = "snd (L_mult_loc v1 v2) \<or> snd (L_add_loc L3 (L_mult v1 v2))"
  have hi: "2147450879 \<le> sint ?A \<and> (?f \<or> 2147483647 < sint ?A + 32768)" if "2147450880 \<le> ?M"
    using that L_mac_value [of v1 v2 L3] sint32_range [of L3]
    by (auto simp add: clamp_def fits32_def split: if_splits)
  have lo: "sint ?A = - 2147483648 \<and> ?f" if "?M < - 2147516416"
    using that L_mac_value [of v1 v2 L3] sint32_range [of L3]
    by (auto simp add: clamp_def fits32_def split: if_splits)
  note tail = rounding_tail [of ?M ?A ?f, OF assms hi lo]
  show "sint (mac_r L3 v1 v2) = clamp ((?M + 32768) div 65536) (- 32768) 32767"
    using tail(1) by (simp add: mac_r_def)
  show "snd (L_mult_loc v1 v2) \<or> snd (L_add_loc L3 (L_mult v1 v2))
       \<or> snd (L_add_loc ?A 0x00008000)"
    using tail(2) by blast
qed

lemma msu_r_saturates:
  assumes "\<not> fits16 ((sint L3 - 2 * (sint v1 * sint v2) + 32768) div 65536)"
  shows "sint (msu_r L3 v1 v2) =
      clamp ((sint L3 - 2 * (sint v1 * sint v2) + 32768) div 65536) (- 32768) 32767"
    and "snd (L_mult_loc v1 v2) \<or> snd (L_sub_loc L3 (L_mult v1 v2))
       \<or> snd (L_add_loc (L_msu L3 v1 v2) 0x00008000)"
proof -
  let ?M = "sint L3 - 2 * (sint v1 * sint v2)"
  let ?A = "L_msu L3 v1 v2"
  let ?f = "snd (L_mult_loc v1 v2) \<or> snd (L_sub_loc L3 (L_mult v1 v2))"
  have hi: "2147450879 \<le> sint ?A \<and> (?f \<or> 2147483647 < sint ?A + 32768)" if "2147450880 \<le> ?M"
    using that L_msu_value [of v1 v2 L3] sint32_range [of L3]
    by (auto simp add: clamp_def fits32_def split: if_splits)
  have lo: "sint ?A = - 2147483648 \<and> ?f" if "?M < - 2147516416"
    using that L_msu_value [of v1 v2 L3] sint32_range [of L3]
    by (auto simp add: clamp_def fits32_def split: if_splits)
  note tail = rounding_tail [of ?M ?A ?f, OF assms hi lo]
  show "sint (msu_r L3 v1 v2) = clamp ((?M + 32768) div 65536) (- 32768) 32767"
    using tail(1) by (simp add: msu_r_def)
  show "snd (L_mult_loc v1 v2) \<or> snd (L_sub_loc L3 (L_mult v1 v2))
       \<or> snd (L_add_loc ?A 0x00008000)"
    using tail(2) by blast
qed


section \<open>The attack detector: what a call may write\<close>

lemma for_each_append:
  "for_each (xs @ ys) body s = Option.bind (for_each xs body s) (for_each ys body)"
proof (induction xs arbitrary: s)
  case Nil
  show ?case by simp
next
  case (Cons i rest)
  show ?case by (cases "body i s") (simp_all add: Cons.IH)
qed

text \<open>A loop keeps every reflexive and transitive relation that its body keeps.\<close>

lemma for_each_rel:
  assumes "for_each xs body s = Some s'"
    and "\<And>t. R t t"
    and "\<And>a b c. R a b \<Longrightarrow> R b c \<Longrightarrow> R a c"
    and "\<And>i t t'. body i t = Some t' \<Longrightarrow> R t t'"
  shows "R s s'"
  using assms(1)
proof (induction xs arbitrary: s)
  case Nil
  then show ?case by (simp add: assms(2))
next
  case (Cons i rest)
  from Cons.prems obtain t where t: "body i s = Some t" "for_each rest body t = Some s'"
    by (auto simp add: bind_eq_Some_conv)
  from t(1) have "R s t" by (rule assms(4))
  moreover from t(2) have "R t s'" by (rule Cons.IH)
  ultimately show ?case by (rule assms(3))
qed

lemma basop_calls_fields [simp]:
  "enc (basop_calls calls m) = enc m"
  "setup' (basop_calls calls m) = setup' m"
  "input (basop_calls calls m) = input m"
  "block_energy (basop_calls calls m) = block_energy m"
  "input_16k (basop_calls calls m) = input_16k m"
  "globals (basop_calls calls m) = fold (\<lambda>f g. f g) calls (globals m)"
  by (simp_all add: basop_calls_def)

subsection \<open>The structures and the input frame\<close>

lemma attdec_frame_refl: "attdec_frame m m"
  by (simp add: attdec_frame_def)

lemma attdec_frame_trans [trans]:
  assumes "attdec_frame m1 m2" "attdec_frame m2 m3"
  shows "attdec_frame m1 m3"
  using assms by (simp add: attdec_frame_def)

lemma for_each_frame:
  assumes "for_each xs body s = Some s'"
    and "\<And>i t t'. body i t = Some t' \<Longrightarrow> attdec_frame t t'"
  shows "attdec_frame s s'"
  using assms(1) attdec_frame_refl attdec_frame_trans assms(2)
  by (rule for_each_rel [where R = attdec_frame])

lemma attdec_frame_basop_calls: "attdec_frame m (basop_calls calls m)"
  by (simp add: attdec_frame_def)

lemma attdec_frame_new_scaling:
  assumes "attdec_new_scaling H input_scaling m = Some (new_scaling, m0)"
  shows "attdec_frame m m0"
  using assms
  by (auto simp add: attdec_new_scaling_def Let_def attdec_frame_def split: if_splits)

lemma attdec_frame_rescale: "attdec_frame m (attdec_rescale new_scaling m)"
  by (simp add: attdec_frame_def attdec_rescale_def Let_def)

lemma attdec_frame_downsample:
  assumes "attdec_downsample new_scaling input_scaling n m1 = Some m2"
  shows "attdec_frame m1 m2"
proof -
  let ?d = "\<lambda>k. basop_calls
      [sub_globals new_scaling input_scaling, sub_globals k (sub new_scaling input_scaling)] m1"
  have "attdec_frame (?d 1) m2 \<or> attdec_frame (?d 2) m2"
    using assms
    apply (simp add: attdec_downsample_def Let_def split: if_splits)
     apply (rule disjI1)
     apply (erule for_each_frame)
     apply (auto simp add: attdec_frame_def bind_eq_Some_conv)[1]
    apply (rule disjI2)
    apply (erule for_each_frame)
    apply (auto simp add: attdec_frame_def bind_eq_Some_conv)[1]
    done
  then show ?thesis by (auto simp add: attdec_frame_def)
qed

lemma attdec_frame_exchange_mem:
  assumes "attdec_exchange_mem n m1 = Some m2"
  shows "attdec_frame m1 m2"
  using assms
  by (auto simp add: attdec_exchange_mem_def attdec_frame_def bind_eq_Some_conv Let_def)

lemma attdec_frame_filter:
  assumes "attdec_filter n m1 = Some m2"
  shows "attdec_frame m1 m2"
  using assms unfolding attdec_filter_def
  by (rule for_each_frame) (auto simp add: attdec_frame_def bind_eq_Some_conv Let_def)

lemma attdec_frame_block_energies:
  assumes "attdec_block_energies m1 = Some m2"
  shows "attdec_frame m1 m2"
proof -
  let ?m0 = "m1\<lparr>block_energy := replicate 4 0 @ drop 4 (block_energy m1)\<rparr>"
  have start: "attdec_frame m1 ?m0"
    by (simp add: attdec_frame_def)
  have "attdec_frame ?m0 m2"
    using assms
    apply (simp add: attdec_block_energies_def split: if_splits)
    apply (erule for_each_frame)
    apply (erule for_each_frame)
    apply (auto simp add: attdec_frame_def bind_eq_Some_conv)
    done
  with start show ?thesis by (rule attdec_frame_trans)
qed

text \<open>The loop state of the detection loop carries the position beside the memory.\<close>

lemma for_each_frame_fst:
  assumes "for_each xs body s = Some s'"
    and "\<And>i t t'. body i t = Some t' \<Longrightarrow> attdec_frame (fst t) (fst t')"
  shows "attdec_frame (fst s) (fst s')"
  using assms(1) attdec_frame_refl attdec_frame_trans assms(2)
  by (rule for_each_rel [where R = "\<lambda>t t'. attdec_frame (fst t) (fst t')"])

lemma attdec_frame_detect_step:
  assumes "attdec_detect_step H i s = Some s'"
  shows "attdec_frame (fst s) (fst s')"
  using assms
  by (cases s)
     (auto simp add: attdec_detect_step_def attdec_frame_def bind_eq_Some_conv Let_def
      split: if_splits)

lemma attdec_frame_detect_blocks:
  assumes "attdec_detect_blocks H k m1 = Some s'"
  shows "attdec_frame m1 (fst s')"
proof -
  let ?m0 = "m1\<lparr>setup' := (setup' m1)
          \<lparr>attdec_detected :=
             (if attdec_hangover_thresh (enc m1) \<le>s attdec_position (setup' m1) then 1 else 0)\<rparr>\<rparr>"
  have "attdec_frame m1 ?m0" by (simp add: attdec_frame_def)
  moreover have "attdec_frame (fst (?m0, - 1 :: int)) (fst s')"
    using assms unfolding attdec_detect_blocks_def
    by (rule for_each_frame_fst) (rule attdec_frame_detect_step)
  ultimately show ?thesis by (simp add: attdec_frame_trans)
qed

lemma attdec_frame_detect:
  assumes "attdec_detect H m1 = Some m2"
  shows "attdec_frame m1 m2"
proof -
  from assms obtain m3 p where
    b: "attdec_detect_blocks H (nat (sint (attdec_nblocks (enc m1)))) m1 = Some (m3, p)"
    and m2: "m2 = m3\<lparr>setup' := (setup' m3)\<lparr>attdec_position := word_of_int p\<rparr>\<rparr>"
    by (auto simp add: attdec_detect_def bind_eq_Some_conv)
  from b have "attdec_frame m1 (fst (m3, p))" by (rule attdec_frame_detect_blocks)
  then show ?thesis by (simp add: m2 attdec_frame_def)
qed

text \<open>The phases of \<open>attdec_prepare\<close>, one after the other.\<close>

lemma attdec_prepare_phases:
  assumes "attdec_prepare H input_scaling n m1 = Some m2"
  shows "\<exists>ns m0 ma mb mc.
      attdec_new_scaling H input_scaling m1 = Some (ns, m0) \<and>
      attdec_downsample ns input_scaling n (attdec_rescale ns m0) = Some ma \<and>
      attdec_exchange_mem n ma = Some mb \<and>
      attdec_filter n mb = Some mc \<and>
      attdec_block_energies mc = Some m2"
  using assms
  by (auto simp add: attdec_prepare_def bind_eq_Some_conv Let_def)

lemma attdec_frame_prepare:
  assumes "attdec_prepare H input_scaling n m1 = Some m2"
  shows "attdec_frame m1 m2"
proof -
  from attdec_prepare_phases [OF assms] obtain ns m0 ma mb mc where
    z: "attdec_new_scaling H input_scaling m1 = Some (ns, m0)"
    and a: "attdec_downsample ns input_scaling n (attdec_rescale ns m0) = Some ma"
    and b: "attdec_exchange_mem n ma = Some mb"
    and c: "attdec_filter n mb = Some mc"
    and d: "attdec_block_energies mc = Some m2"
    by blast
  have "attdec_frame m1 m0" using z by (rule attdec_frame_new_scaling)
  also have "attdec_frame m0 (attdec_rescale ns m0)" by (rule attdec_frame_rescale)
  also have "attdec_frame (attdec_rescale ns m0) ma" using a by (rule attdec_frame_downsample)
  also have "attdec_frame ma mb" using b by (rule attdec_frame_exchange_mem)
  also have "attdec_frame mb mc" using c by (rule attdec_frame_filter)
  also have "attdec_frame mc m2" using d by (rule attdec_frame_block_energies)
  finally show ?thesis .
qed

text \<open>The call, taken apart: \<open>i_mult\<close>, then the test, the preparation and the loop.\<close>

lemma attack_detector_fx_phases:
  assumes "attack_detector_fx H input_scaling m = Some m'"
    and "attack_handling (setup' m) \<noteq> 0"
  shows "\<exists>m1.
      attdec_prepare H input_scaling (sint (i_mult (attdec_nblocks (enc m)) 40))
        (basop_calls [i_mult_globals (attdec_nblocks (enc m)) 40] m) = Some m1 \<and>
      attdec_detect H m1 = Some m'"
  using assms
  by (auto simp add: attack_detector_fx_def bind_eq_Some_conv Let_def)

lemma attack_detector_fx_off:
  assumes "attack_handling (setup' m) = 0"
  shows "attack_detector_fx H input_scaling m =
     Some (basop_calls [i_mult_globals (attdec_nblocks (enc m)) 40] m)"
  using assms by (simp add: attack_detector_fx_def Let_def)

lemma attdec_frame_detector:
  assumes "attack_detector_fx H input_scaling m = Some m'"
  shows "attdec_frame m m'"
proof (cases "attack_handling (setup' m) = 0")
  case True
  with assms show ?thesis
    by (auto simp add: attack_detector_fx_off attdec_frame_basop_calls)
next
  case False
  let ?m0 = "basop_calls [i_mult_globals (attdec_nblocks (enc m)) 40] m"
  from attack_detector_fx_phases [OF assms False] obtain m1 where
    a: "attdec_prepare H input_scaling (sint (i_mult (attdec_nblocks (enc m)) 40)) ?m0 = Some m1"
    and b: "attdec_detect H m1 = Some m'"
    by blast
  have "attdec_frame m ?m0" by (rule attdec_frame_basop_calls)
  also have "attdec_frame ?m0 m1" using a by (rule attdec_frame_prepare)
  also have "attdec_frame m1 m'" using b by (rule attdec_frame_detect)
  finally show ?thesis .
qed

subsection \<open>The diagnostics of basop32.c\<close>

lemma counter_only_refl: "counter_only g g"
  by (simp add: counter_only_def)

lemma counter_only_trans [trans]:
  assumes "counter_only a b" "counter_only b c"
  shows "counter_only a c"
proof -
  from assms have "c = a\<lparr>overflow_count := overflow_count b\<rparr>\<lparr>overflow_count := overflow_count c\<rparr>"
    by (simp add: counter_only_def)
  then show ?thesis by (simp add: counter_only_def)
qed

lemma counter_only_counted: "counter_only g (counted n g)"
  by (simp add: counter_only_def counted_def)

lemma counted_step:
  assumes "counter_only g g'" "x = counted n g'"
  shows "counter_only g x"
  using assms(1) unfolding assms(2)
  by (rule counter_only_trans) (rule counter_only_counted)

lemma shr_globals_nonneg:
  "\<not> var2 <s 0 \<Longrightarrow> shr_globals var1 var2 g = counted (of_bool (snd (shr_loc var1 var2))) g"
  by (simp add: shr_globals.simps [of var1 var2 g] BASOP_CHECK_counted)

lemma shl_globals_nonneg:
  "\<not> var2 <s 0 \<Longrightarrow> shl_globals var1 var2 g = counted (of_bool (snd (shl_loc var1 var2))) g"
  by (simp add: shl_globals.simps [of var1 var2 g] BASOP_CHECK_counted extract_l_globals_def
      BASOP_CHECK_00 counted_0)

lemma shl_globals_counted: "\<exists>n. shl_globals var1 var2 g = counted n g"
proof (cases "var2 <s 0")
  case True
  from neg_count16 [OF True] show ?thesis
    by (simp add: shl_globals.simps [of var1 var2 g] True shr_globals_nonneg
        BASOP_CHECK_counted counted_counted) blast
next
  case False
  then show ?thesis by (simp add: shl_globals_nonneg) blast
qed

lemma shr_globals_counted: "\<exists>n. shr_globals var1 var2 g = counted n g"
proof (cases "var2 <s 0")
  case True
  from neg_count16 [OF True] show ?thesis
    by (simp add: shr_globals.simps [of var1 var2 g] True shl_globals_nonneg
        BASOP_CHECK_counted counted_counted) blast
next
  case False
  then show ?thesis by (simp add: shr_globals_nonneg) blast
qed

lemma L_shl_globals_pos:
  "\<not> var2 \<le>s 0 \<Longrightarrow>
     L_shl_globals L_var1 var2 g = counted (of_bool (snd (L_shl_loc L_var1 var2))) g"
  by (simp add: L_shl_globals.simps [of L_var1 var2 g] BASOP_CHECK_counted)

lemma L_shr_globals_nonneg:
  "\<not> var2 <s 0 \<Longrightarrow>
     L_shr_globals L_var1 var2 g = counted (of_bool (snd (L_shr_loc L_var1 var2))) g"
  by (simp add: L_shr_globals.simps [of L_var1 var2 g] BASOP_CHECK_counted)

lemma L_shl_globals_counted: "\<exists>n. L_shl_globals L_var1 var2 g = counted n g"
proof (cases "var2 \<le>s 0")
  case True
  from neg_count32_le [OF True] show ?thesis
    by (simp add: L_shl_globals.simps [of L_var1 var2 g] True L_shr_globals_nonneg
        BASOP_CHECK_counted counted_counted) blast
next
  case False
  then show ?thesis by (simp add: L_shl_globals_pos) blast
qed

lemma L_shr_globals_counted: "\<exists>n. L_shr_globals L_var1 var2 g = counted n g"
proof (cases "var2 <s 0")
  case True
  from neg_count32_less [OF True] show ?thesis
    by (simp add: L_shr_globals.simps [of L_var1 var2 g] True L_shl_globals_pos
        BASOP_CHECK_counted counted_counted) blast
next
  case False
  then show ?thesis by (simp add: L_shr_globals_nonneg) blast
qed

text \<open>Each operator that the detector calls, after globals that differ in the counter only.\<close>

lemma counter_only_ops:
  assumes "counter_only g g'"
  shows "counter_only g (add_globals a b g')"
    and "counter_only g (sub_globals a b g')"
    and "counter_only g (i_mult_globals a b g')"
    and "counter_only g (shl_globals a b g')"
    and "counter_only g (shr_globals a b g')"
    and "counter_only g (L_shl_globals L b g')"
    and "counter_only g (L_shr_globals L b g')"
    and "counter_only g (L_mult_globals a b g')"
    and "counter_only g (L_mult0_globals a b g')"
    and "counter_only g (L_mac_globals L a b g')"
    and "counter_only g (L_msu_globals L a b g')"
    and "counter_only g (L_mac0_globals L a b g')"
    and "counter_only g (extract_h_globals g')"
    and "counter_only g (extract_l_globals g')"
proof -
  note step = counted_step [OF assms]
  show "counter_only g (add_globals a b g')"
    by (rule step) (simp add: add_globals_def saturate_globals_counted)
  show "counter_only g (sub_globals a b g')"
    by (rule step) (simp add: sub_globals_def saturate_globals_counted)
  show "counter_only g (i_mult_globals a b g')"
    by (rule step) (simp add: i_mult_globals_def saturate_globals_counted)
  show "counter_only g (shl_globals a b g')"
    using shl_globals_counted [of a b g'] step by blast
  show "counter_only g (shr_globals a b g')"
    using shr_globals_counted [of a b g'] step by blast
  show "counter_only g (L_shl_globals L b g')"
    using L_shl_globals_counted [of L b g'] step by blast
  show "counter_only g (L_shr_globals L b g')"
    using L_shr_globals_counted [of L b g'] step by blast
  show "counter_only g (L_mult_globals a b g')"
    by (rule step) (rule L_mult_globals_counted)
  show "counter_only g (L_mult0_globals a b g')"
    using assms by (simp add: L_mult0_globals_def BASOP_CHECK_00)
  show "counter_only g (L_mac_globals L a b g')"
    by (rule step) (rule L_mac_globals_counted)
  show "counter_only g (L_msu_globals L a b g')"
    by (rule step) (rule L_msu_globals_counted)
  show "counter_only g (L_mac0_globals L a b g')"
    by (rule step) (rule L_mac0_globals_counted)
  show "counter_only g (extract_h_globals g')"
    using assms by (simp add: extract_h_globals_def BASOP_CHECK_00)
  show "counter_only g (extract_l_globals g')"
    using assms by (simp add: extract_l_globals_def BASOP_CHECK_00)
qed

lemma counter_only_helpers:
  assumes "helpers_count_only H" "counter_only g g'"
  shows "counter_only g (getScaleFactor16_globals H xs n g')"
    and "counter_only g (getScaleFactor16_0_globals H xs n g')"
    and "counter_only g (getScaleFactor32_0_globals H ys n g')"
    and "counter_only g (s_and_globals H a b g')"
    and "counter_only g (s_min_globals H a b g')"
    and "counter_only g (L_max_globals H L M g')"
  using assms(1) counter_only_trans [OF assms(2)]
  by (simp_all add: helpers_count_only_def)

lemma attdec_counts_refl: "attdec_counts m m"
  by (simp add: attdec_counts_def counter_only_refl)

lemma attdec_counts_trans [trans]:
  assumes "attdec_counts m1 m2" "attdec_counts m2 m3"
  shows "attdec_counts m1 m3"
  using assms unfolding attdec_counts_def by (rule counter_only_trans)

lemma attdec_counts_same:
  assumes "globals m2 = globals m1"
  shows "attdec_counts m1 m2"
  using assms by (simp add: attdec_counts_def counter_only_refl)

lemma for_each_counts:
  assumes "for_each xs body s = Some s'"
    and "\<And>i t t'. body i t = Some t' \<Longrightarrow> attdec_counts t t'"
  shows "attdec_counts s s'"
  using assms(1) attdec_counts_refl attdec_counts_trans assms(2)
  by (rule for_each_rel [where R = attdec_counts])

lemma for_each_counts_fst:
  assumes "for_each xs body s = Some s'"
    and "\<And>i t t'. body i t = Some t' \<Longrightarrow> attdec_counts (fst t) (fst t')"
  shows "attdec_counts (fst s) (fst s')"
  using assms(1) attdec_counts_refl attdec_counts_trans assms(2)
  by (rule for_each_rel [where R = "\<lambda>t t'. attdec_counts (fst t) (fst t')"])

lemma counts_new_scaling:
  assumes "attdec_new_scaling H input_scaling m = Some (new_scaling, m0)"
    and "helpers_count_only H"
  shows "attdec_counts m m0"
proof -
  note ops = counter_only_ops counter_only_helpers [OF assms(2)]
  from assms(1) show ?thesis
    by (auto simp add: attdec_new_scaling_def Let_def attdec_counts_def split: if_splits
        intro!: ops counter_only_refl)
qed

lemma counts_rescale: "attdec_counts m (attdec_rescale new_scaling m)"
  by (auto simp add: attdec_rescale_def Let_def attdec_counts_def
      intro!: counter_only_ops counter_only_refl)

lemma counts_downsample:
  assumes "attdec_downsample new_scaling input_scaling n m1 = Some m2"
  shows "attdec_counts m1 m2"
proof -
  let ?d = "\<lambda>k. basop_calls
      [sub_globals new_scaling input_scaling, sub_globals k (sub new_scaling input_scaling)] m1"
  have start: "attdec_counts m1 (?d k)" for k
    by (auto simp add: attdec_counts_def intro!: counter_only_ops counter_only_refl)
  have "attdec_counts (?d 1) m2 \<or> attdec_counts (?d 2) m2"
    using assms
    apply (simp add: attdec_downsample_def Let_def split: if_splits)
     apply (rule disjI1)
     apply (erule for_each_counts)
     apply (auto simp add: attdec_counts_def bind_eq_Some_conv
        intro!: counter_only_ops counter_only_refl)[1]
    apply (rule disjI2)
    apply (erule for_each_counts)
    apply (auto simp add: attdec_counts_def bind_eq_Some_conv
        intro!: counter_only_ops counter_only_refl)[1]
    done
  with start show ?thesis by (blast intro: attdec_counts_trans)
qed

lemma counts_exchange_mem:
  assumes "attdec_exchange_mem n m1 = Some m2"
  shows "attdec_counts m1 m2"
  using assms
  by (auto simp add: attdec_exchange_mem_def bind_eq_Some_conv Let_def
      intro!: attdec_counts_same)

lemma counts_filter:
  assumes "attdec_filter n m1 = Some m2"
  shows "attdec_counts m1 m2"
  using assms unfolding attdec_filter_def
  by (rule for_each_counts)
     (auto simp add: attdec_counts_def bind_eq_Some_conv Let_def
      intro!: counter_only_ops counter_only_refl)

lemma counts_block_energies:
  assumes "attdec_block_energies m1 = Some m2"
  shows "attdec_counts m1 m2"
proof -
  let ?m0 = "m1\<lparr>block_energy := replicate 4 0 @ drop 4 (block_energy m1)\<rparr>"
  have start: "attdec_counts m1 ?m0"
    by (simp add: attdec_counts_same)
  have "attdec_counts ?m0 m2"
    using assms
    apply (simp add: attdec_block_energies_def split: if_splits)
    apply (erule for_each_counts)
    apply (erule for_each_counts)
    apply (auto simp add: attdec_counts_def bind_eq_Some_conv
        intro!: counter_only_ops counter_only_refl)
    done
  with start show ?thesis by (rule attdec_counts_trans)
qed

lemma counts_detect_step:
  assumes "attdec_detect_step H i s = Some s'"
    and "helpers_count_only H"
  shows "attdec_counts (fst s) (fst s')"
proof -
  note ops = counter_only_ops counter_only_helpers [OF assms(2)]
  from assms(1) show ?thesis
    by (cases s)
       (auto simp add: attdec_detect_step_def attdec_counts_def bind_eq_Some_conv Let_def
        split: if_splits intro!: ops counter_only_refl)
qed

lemma counts_detect:
  assumes "attdec_detect H m1 = Some m2"
    and "helpers_count_only H"
  shows "attdec_counts m1 m2"
proof -
  let ?m0 = "m1\<lparr>setup' := (setup' m1)
          \<lparr>attdec_detected :=
             (if attdec_hangover_thresh (enc m1) \<le>s attdec_position (setup' m1) then 1 else 0)\<rparr>\<rparr>"
  from assms(1) obtain m3 p where
    b: "attdec_detect_blocks H (nat (sint (attdec_nblocks (enc m1)))) m1 = Some (m3, p)"
    and m2: "m2 = m3\<lparr>setup' := (setup' m3)\<lparr>attdec_position := word_of_int p\<rparr>\<rparr>"
    by (auto simp add: attdec_detect_def bind_eq_Some_conv)
  have "attdec_counts m1 ?m0" by (simp add: attdec_counts_same)
  also have "attdec_counts ?m0 m3"
    using for_each_counts_fst [OF b [unfolded attdec_detect_blocks_def]]
      counts_detect_step [OF _ assms(2)]
    by fastforce
  also have "attdec_counts m3 m2" by (simp add: m2 attdec_counts_same)
  finally show ?thesis .
qed

lemma counts_prepare:
  assumes "attdec_prepare H input_scaling n m1 = Some m2"
    and "helpers_count_only H"
  shows "attdec_counts m1 m2"
proof -
  from attdec_prepare_phases [OF assms(1)] obtain ns m0 ma mb mc where
    z: "attdec_new_scaling H input_scaling m1 = Some (ns, m0)"
    and a: "attdec_downsample ns input_scaling n (attdec_rescale ns m0) = Some ma"
    and b: "attdec_exchange_mem n ma = Some mb"
    and c: "attdec_filter n mb = Some mc"
    and d: "attdec_block_energies mc = Some m2"
    by blast
  have "attdec_counts m1 m0" using z assms(2) by (rule counts_new_scaling)
  also have "attdec_counts m0 (attdec_rescale ns m0)" by (rule counts_rescale)
  also have "attdec_counts (attdec_rescale ns m0) ma" using a by (rule counts_downsample)
  also have "attdec_counts ma mb" using b by (rule counts_exchange_mem)
  also have "attdec_counts mb mc" using c by (rule counts_filter)
  also have "attdec_counts mc m2" using d by (rule counts_block_energies)
  finally show ?thesis .
qed

lemma counts_detector:
  assumes "attack_detector_fx H input_scaling m = Some m'"
    and "helpers_count_only H"
  shows "attdec_counts m m'"
proof -
  let ?m0 = "basop_calls [i_mult_globals (attdec_nblocks (enc m)) 40] m"
  have start: "attdec_counts m ?m0"
    by (auto simp add: attdec_counts_def intro!: counter_only_ops counter_only_refl)
  show ?thesis
  proof (cases "attack_handling (setup' m) = 0")
    case True
    with assms(1) start show ?thesis by (auto simp add: attack_detector_fx_off)
  next
    case False
    from attack_detector_fx_phases [OF assms(1) False] obtain m1 where
      a: "attdec_prepare H input_scaling (sint (i_mult (attdec_nblocks (enc m)) 40)) ?m0 = Some m1"
      and b: "attdec_detect H m1 = Some m'"
      by blast
    note start
    also have "attdec_counts ?m0 m1" using a assms(2) by (rule counts_prepare)
    also have "attdec_counts m1 m'" using b assms(2) by (rule counts_detect)
    finally show ?thesis .
  qed
qed

section \<open>The attack detector: the accumulated energy\<close>

lemma L_shr_2: "L_shr x 2 = signed_drop_bit 2 x"
proof (cases "x <s 0")
  case True
  then have b: "bit x 31" using bit_last_iff [of x] by (simp add: word_sless_alt)
  have "NOT (drop_bit 2 (NOT x)) = signed_drop_bit 2 x"
    by (rule bit_word_eqI) (use b in \<open>auto simp add: bit_simps\<close>)
  with True show ?thesis
    by (simp add: L_shr_def L_shr_loc.simps [of x 2] word_sless_alt word_sle_eq)
next
  case False
  then have b: "\<not> bit x 31" using bit_last_iff [of x] by (simp add: word_sless_alt)
  have "drop_bit 2 x = signed_drop_bit 2 x"
    by (rule bit_word_eqI) (use b in \<open>auto simp add: bit_simps dest: bit_imp_le_length\<close>)
  with False show ?thesis
    by (simp add: L_shr_def L_shr_loc.simps [of x 2] word_sless_alt word_sle_eq)
qed

lemma sint_L_shr_2: "sint (L_shr x 2) = sint x div 4"
  by (simp add: L_shr_2 sint_signed_drop_bit_eq drop_bit_eq_div)

lemma sint_L_max: "sint a \<le> sint (L_max a b)" "sint b \<le> sint (L_max a b)"
  by (simp_all add: L_max_def word_sle_eq)

lemma sub_same: "sub a a = 0"
proof -
  have "sint (sub a a) = sint (0 :: Word16)" by (simp add: sint_sub clamp_def)
  then show ?thesis by (rule signed_word_eqI)
qed

text \<open>A loop keeps the value of every function of the state that its body keeps.\<close>

lemma for_each_keeps:
  assumes "for_each xs body s = Some s'"
    and "\<And>i t t'. body i t = Some t' \<Longrightarrow> f t' = f t"
  shows "f s' = f s"
  using assms(1) _ _ assms(2)
  by (rule for_each_rel [where R = "\<lambda>t t'. f t' = f t"]) simp_all

text \<open>Lines 49 to 93 do not write the accumulated energy.\<close>

lemma acc_downsample:
  assumes "attdec_downsample new_scaling input_scaling n m1 = Some m2"
  shows "attdec_acc_energy (setup' m2) = attdec_acc_energy (setup' m1)"
  using assms
  apply (simp add: attdec_downsample_def Let_def split: if_splits)
   apply (drule for_each_keeps [where f = "\<lambda>t. attdec_acc_energy (setup' t)"])
    apply (auto simp add: bind_eq_Some_conv)[2]
  apply (drule for_each_keeps [where f = "\<lambda>t. attdec_acc_energy (setup' t)"])
   apply (auto simp add: bind_eq_Some_conv)
  done

lemma acc_exchange_mem:
  assumes "attdec_exchange_mem n m1 = Some m2"
  shows "attdec_acc_energy (setup' m2) = attdec_acc_energy (setup' m1)"
  using assms
  by (auto simp add: attdec_exchange_mem_def bind_eq_Some_conv Let_def)

lemma acc_filter:
  assumes "attdec_filter n m1 = Some m2"
  shows "attdec_acc_energy (setup' m2) = attdec_acc_energy (setup' m1)"
  using assms unfolding attdec_filter_def
  by (rule for_each_keeps [where f = "\<lambda>t. attdec_acc_energy (setup' t)"])
     (auto simp add: bind_eq_Some_conv Let_def)

lemma acc_block_energies:
  assumes "attdec_block_energies m1 = Some m2"
  shows "attdec_acc_energy (setup' m2) = attdec_acc_energy (setup' m1)"
  using assms
  apply (simp add: attdec_block_energies_def split: if_splits)
  apply (drule for_each_keeps [where f = "\<lambda>t. attdec_acc_energy (setup' t)"])
   apply (erule for_each_keeps [where f = "\<lambda>t. attdec_acc_energy (setup' t)"])
   apply (auto simp add: bind_eq_Some_conv)
  done

text \<open>The new scaling does not depend on the diagnostics, and its calls write nothing else.\<close>

lemma attdec_new_scaling_value:
  assumes "attdec_new_scaling H input_scaling (basop_calls calls m) = Some (new_scaling, m0)"
  shows "map_option fst (attdec_new_scaling H input_scaling m) = Some new_scaling"
    and "setup' m0 = setup' m"
  using assms
  by (auto simp add: attdec_new_scaling_def Let_def split: if_splits)

lemma acc_prepare:
  assumes "attdec_prepare H input_scaling n (basop_calls calls m) = Some m1"
  shows "\<exists>new_scaling.
      map_option fst (attdec_new_scaling H input_scaling m) = Some new_scaling \<and>
      attdec_acc_energy (setup' m1) = attdec_acc_energy (setup' (attdec_rescale new_scaling m))"
proof -
  from attdec_prepare_phases [OF assms] obtain ns m0 ma mb mc where
    z: "attdec_new_scaling H input_scaling (basop_calls calls m) = Some (ns, m0)"
    and a: "attdec_downsample ns input_scaling n (attdec_rescale ns m0) = Some ma"
    and b: "attdec_exchange_mem n ma = Some mb"
    and c: "attdec_filter n mb = Some mc"
    and d: "attdec_block_energies mc = Some m1"
    by blast
  note v = attdec_new_scaling_value [OF z]
  have "attdec_acc_energy (setup' m1) = attdec_acc_energy (setup' mc)"
    using d by (rule acc_block_energies)
  also have "\<dots> = attdec_acc_energy (setup' mb)" using c by (rule acc_filter)
  also have "\<dots> = attdec_acc_energy (setup' ma)" using b by (rule acc_exchange_mem)
  also have "\<dots> = attdec_acc_energy (setup' (attdec_rescale ns m0))"
    using a by (rule acc_downsample)
  also have "\<dots> = attdec_acc_energy (setup' (attdec_rescale ns m))"
    by (simp add: attdec_rescale_def Let_def v(2))
  finally show ?thesis using v(1) by blast
qed

text \<open>The accumulated energy after lines 39 to 47, written out.\<close>

lemma acc_rescale:
  "attdec_acc_energy (setup' (attdec_rescale new_scaling m)) =
     (if sub new_scaling (attdec_scaling (setup' m)) \<noteq> 0
      then L_shl (attdec_acc_energy (setup' m))
             (shl (sub new_scaling (attdec_scaling (setup' m))) 1)
      else attdec_acc_energy (setup' m))"
  by (simp add: attdec_rescale_def Let_def)

text \<open>Where the scaling stays, the accumulated energy is not rescaled.\<close>

lemma acc_rescale_same:
  "attdec_acc_energy (setup' (attdec_rescale (attdec_scaling (setup' m)) m)) =
     attdec_acc_energy (setup' m)"
  by (simp add: attdec_rescale_def Let_def sub_same)

text \<open>The detection loop: each block takes the accumulated energy down by 2 bits at most.\<close>

lemma attdec_detect_step_acc:
  assumes "attdec_detect_step H i (m2, p2) = Some (m3, p3)"
  shows "\<exists>e. rd_block (block_energy m2) (int i) = Some e \<and>
     attdec_acc_energy (setup' m3) = L_max (L_shr (attdec_acc_energy (setup' m2)) 2) e \<and>
     block_energy m3 = block_energy m2"
  using assms
  by (auto simp add: attdec_detect_step_def bind_eq_Some_conv Let_def split: if_splits)

lemma quarter_power:
  fixes a b :: int
  assumes "a div 4 ^ k \<le> b"
  shows "a div 4 ^ Suc k \<le> b div 4"
proof -
  have "a div 4 ^ Suc k = a div (4 ^ k * 4)"
    by (simp add: mult.commute)
  also have "\<dots> = (a div 4 ^ k) div 4"
    by (rule zdiv_zmult2_eq) simp
  also have "\<dots> \<le> b div 4"
    using assms by (intro zdiv_mono1) simp_all
  finally show ?thesis .
qed

lemma detect_loop_envelope:
  assumes "for_each [0..<k] (attdec_detect_step H) (m0, p0) = Some (m2, p2)"
  shows "block_energy m2 = block_energy m0 \<and>
     sint (attdec_acc_energy (setup' m0)) div 4 ^ k \<le> sint (attdec_acc_energy (setup' m2))"
  using assms
proof (induction k arbitrary: m2 p2)
  case 0
  then show ?case by simp
next
  case (Suc k)
  from Suc.prems obtain m1 p1 where
    before: "for_each [0..<k] (attdec_detect_step H) (m0, p0) = Some (m1, p1)"
    and last: "attdec_detect_step H k (m1, p1) = Some (m2, p2)"
    by (auto simp add: for_each_append bind_eq_Some_conv split: option.splits)
  from Suc.IH [OF before] have
    b: "block_energy m1 = block_energy m0"
    and a: "sint (attdec_acc_energy (setup' m0)) div 4 ^ k \<le> sint (attdec_acc_energy (setup' m1))"
    by simp_all
  from attdec_detect_step_acc [OF last] obtain e where
    acc: "attdec_acc_energy (setup' m2) = L_max (L_shr (attdec_acc_energy (setup' m1)) 2) e"
    and b2: "block_energy m2 = block_energy m1"
    by blast
  have "sint (attdec_acc_energy (setup' m0)) div 4 ^ Suc k
      \<le> sint (attdec_acc_energy (setup' m1)) div 4"
    using a by (rule quarter_power)
  also have "\<dots> = sint (L_shr (attdec_acc_energy (setup' m1)) 2)"
    by (simp add: sint_L_shr_2)
  also have "\<dots> \<le> sint (attdec_acc_energy (setup' m2))"
    unfolding acc by (rule sint_L_max(1))
  finally show ?case using b b2 by simp
qed

lemma detect_loop_last:
  assumes "for_each [0..<Suc k] (attdec_detect_step H) (m0, p0) = Some (m2, p2)"
  shows "\<exists>e. rd_block (block_energy m2) (int k) = Some e \<and>
     sint e \<le> sint (attdec_acc_energy (setup' m2))"
proof -
  from assms obtain m1 p1 where
    last: "attdec_detect_step H k (m1, p1) = Some (m2, p2)"
    by (auto simp add: for_each_append bind_eq_Some_conv split: option.splits)
  from attdec_detect_step_acc [OF last] obtain e where
    e: "rd_block (block_energy m1) (int k) = Some e"
    and acc: "attdec_acc_energy (setup' m2) = L_max (L_shr (attdec_acc_energy (setup' m1)) 2) e"
    and b2: "block_energy m2 = block_energy m1"
    by blast
  have "sint e \<le> sint (attdec_acc_energy (setup' m2))"
    unfolding acc by (rule sint_L_max(2))
  with e b2 show ?thesis by simp
qed

lemma attdec_envelope:
  assumes "attack_handling (setup' m) \<noteq> 0"
    and "attack_detector_fx H input_scaling m = Some m'"
    and "0 < sint (attdec_nblocks (enc m))"
  shows "\<exists>new_scaling e.
      map_option fst (attdec_new_scaling H input_scaling m) = Some new_scaling \<and>
      rd_block (block_energy m') (sint (attdec_nblocks (enc m)) - 1) = Some e \<and>
      sint (attdec_acc_energy (setup' (attdec_rescale new_scaling m)))
          div 4 ^ nat (sint (attdec_nblocks (enc m)))
        \<le> sint (attdec_acc_energy (setup' m')) \<and>
      sint e \<le> sint (attdec_acc_energy (setup' m'))"
proof -
  let ?m0 = "basop_calls [i_mult_globals (attdec_nblocks (enc m)) 40] m"
  from attack_detector_fx_phases [OF assms(2,1)] obtain m1 where
    prep: "attdec_prepare H input_scaling (sint (i_mult (attdec_nblocks (enc m)) 40)) ?m0 = Some m1"
    and det: "attdec_detect H m1 = Some m'"
    by blast
  from acc_prepare [OF prep] obtain new_scaling where
    ns: "map_option fst (attdec_new_scaling H input_scaling m) = Some new_scaling"
    and start: "attdec_acc_energy (setup' m1) =
       attdec_acc_energy (setup' (attdec_rescale new_scaling m))"
    by blast
  obtain k where k: "nat (sint (attdec_nblocks (enc m))) = Suc k"
    using assms(3) by (cases "nat (sint (attdec_nblocks (enc m)))") simp_all
  then have k': "sint (attdec_nblocks (enc m)) - 1 = int k" by linarith
  have "attdec_frame ?m0 m1" using prep by (rule attdec_frame_prepare)
  then have "enc m1 = enc m" by (simp add: attdec_frame_def)
  with k have n: "nat (sint (attdec_nblocks (enc m1))) = Suc k" by simp
  let ?s = "m1\<lparr>setup' := (setup' m1)
          \<lparr>attdec_detected :=
             (if attdec_hangover_thresh (enc m1) \<le>s attdec_position (setup' m1) then 1 else 0)\<rparr>\<rparr>"
  from det obtain m3 p3 where
    loop: "for_each [0..<Suc k] (attdec_detect_step H) (?s, - 1) = Some (m3, p3)"
    and m': "m' = m3\<lparr>setup' := (setup' m3)\<lparr>attdec_position := word_of_int p3\<rparr>\<rparr>"
    by (auto simp add: attdec_detect_def attdec_detect_blocks_def n bind_eq_Some_conv)
  from detect_loop_envelope [OF loop] have
    "sint (attdec_acc_energy (setup' m1)) div 4 ^ Suc k \<le> sint (attdec_acc_energy (setup' m3))"
    by simp
  moreover from detect_loop_last [OF loop] obtain e where
    "rd_block (block_energy m3) (int k) = Some e" "sint e \<le> sint (attdec_acc_energy (setup' m3))"
    by blast
  ultimately show ?thesis
    using ns by (auto simp add: m' k k' start)
qed

lemma i_mult_globals_fit:
  assumes "fits16 (sint a * sint b)"
  shows "i_mult_globals a b g = g"
  unfolding i_mult_globals_def
  using assms by (intro saturate_globals_fit) (simp_all add: sint_mult16 fits16_def)

lemma sample_helpers_count_only: "helpers_count_only sample_helpers"
  by (simp add: helpers_count_only_def sample_helpers_def counter_only_refl)

lemma loud_helpers_count_only: "helpers_count_only loud_helpers"
  by (simp add: helpers_count_only_def loud_helpers_def sample_helpers_def counter_only_refl)

lemma sample_run:
  "map_option
     (\<lambda>m. (attdec_scaling (setup' m), attdec_filter_mem (setup' m),
           sint (attdec_acc_energy (setup' m)), attdec_detected (setup' m),
           attdec_position (setup' m), overflow_count (globals m)))
     (attack_detector_fx sample_helpers 0 sample_mem) = Some (1, (0, 0), 52106250, 1, 0, 0)"
  by code_simp

lemma quiet_run:
  "map_option
     (\<lambda>m. (attdec_scaling (setup' m), sint (attdec_acc_energy (setup' m))))
     (attack_detector_fx sample_helpers 0 quiet_mem) = Some (1, 4)"
  by code_simp

lemma quiet_new_scaling:
  "map_option fst (attdec_new_scaling sample_helpers 0 quiet_mem) = Some 1"
  by code_simp

lemma loud_run:
  "map_option
     (\<lambda>m. (sint (attdec_scaling (setup' m)), attdec_filter_mem (setup' m),
           sint (attdec_acc_energy (setup' m)), attdec_detected (setup' m),
           attdec_position (setup' m), overflow_count (globals m)))
     (attack_detector_fx loud_helpers 0 loud_mem)
     = Some (- 2, (8190, - 8192), 2147483647, 1, 0, 24)"
  by code_simp

section \<open>Claims\<close>

text \<open>
  C1. For all 16-bit \<open>a\<close> and \<open>b\<close>, \<open>add(a,b)\<close> is the exact integer sum clamped
  to [-32768, 32767], and \<open>sub(a,b)\<close> the exact integer difference clamped to the same
  range.
\<close>

theorem add_sub_clamp:
  "sint (add a b) = clamp (sint a + sint b) (- 32768) 32767 \<and>
   sint (sub a b) = clamp (sint a - sint b) (- 32768) 32767"
  by (simp add: sint_add sint_sub)

text \<open>
  C3. \<open>div_s(var1, var2)\<close> ends in \<open>abort()\<close>, with no value returned, exactly when
  \<open>var1 > var2\<close>, \<open>var1 < 0\<close>, \<open>var2 < 0\<close> or \<open>var2 = 0\<close>; for every pair with
  \<open>0 \<le> var1 \<le> var2\<close> and \<open>var2 \<noteq> 0\<close> it returns a value.
\<close>

theorem div_s_abort_iff:
  "(div_s var1 var2 g = None) =
     (sint var2 < sint var1 \<or> sint var1 < 0 \<or> sint var2 < 0 \<or> var2 = 0) \<and>
   (0 \<le> sint var1 \<and> sint var1 \<le> sint var2 \<and> var2 \<noteq> 0 \<longrightarrow>
      (\<exists>w g'. div_s var1 var2 g = Some (w, g')))"
  by (auto simp add: div_s_def Let_def word_sless_alt split: prod.splits)

theorem div_s_abort_iff_witness:
  "(div_s 5 3 basop_init = None) \<and>
   0 \<le> sint (3 :: Word16) \<and> sint (3 :: Word16) \<le> sint (5 :: Word16) \<and> (5 :: Word16) \<noteq> 0 \<and>
   (\<exists>w g'. div_s 3 5 basop_init = Some (w, g'))"
  using div_s_abort_iff [of 5 3 basop_init] div_s_abort_iff [of 3 5 basop_init]
  by simp

text \<open>
  C4. \<open>div_s(3, 5)\<close> returns 19660, the quotient \<open>3 * 32768 / 5\<close> cut off
  towards zero. That is within one unit in the last place of 19661, the rounded quotient
  \<open>round(3/5 * 32768)\<close>.
\<close>

theorem div_s_3_5:
  "div_s 3 5 g = Some (19660, g) \<and>
   sint (19660 :: Word16) = (3 * 32768) div 5 \<and>
   round_q15 3 5 = 19661 \<and>
   \<bar>sint (19660 :: Word16) - round_q15 3 5\<bar> \<le> 1"
proof -
  obtain w where w: "div_s 3 5 g = Some (w, g)" "sint w = (sint (3 :: Word16) * 32768) div sint (5 :: Word16)"
    using div_s_quotient [of 3 5 g] by auto
  from w(2) have "sint w = sint (19660 :: Word16)" by simp
  then have "w = 19660" by (rule signed_word_eqI)
  with w(1) show ?thesis by (simp add: round_q15_def)
qed

text \<open>
  C6. For every 16-bit \<open>a\<close> and every count \<open>s\<close> from -16 to 16,
  \<open>shl(a, -s)\<close> equals \<open>shr(a, s)\<close> and \<open>shr(a, -s)\<close> equals \<open>shl(a, s)\<close>.
\<close>

theorem shl_shr_symmetry:
  assumes "- 16 \<le> sint s" "sint s \<le> 16"
  shows "shl a (- s) = shr a s \<and> shr a (- s) = shl a s"
proof -
  have neg: "sint (- s) = - sint s"
    using assms by (intro sint_neg16) simp
  consider "0 < sint s" | "s = 0" | "sint s < 0"
    by (metis linorder_neqE_linordered_idom signed_eq_0_iff)
  then show ?thesis
  proof cases
    case 1
    then have "- s <s 0" "\<not> - s <s - 16"
      using assms neg by (simp_all add: word_sless_alt)
    then show ?thesis
      using shl_neg [of "- s" a] shr_neg [of "- s" a] by simp
  next
    case 2
    then show ?thesis by (simp add: shl_0 shr_0)
  next
    case 3
    then have "s <s 0" "\<not> s <s - 16"
      using assms by (simp_all add: word_sless_alt)
    then show ?thesis
      using shl_neg [of s a] shr_neg [of s a] by simp
  qed
qed

theorem shl_shr_symmetry_witness:
  "- 16 \<le> sint (3 :: Word16) \<and> sint (3 :: Word16) \<le> 16 \<and>
   shl (- 100) (- 3) = shr (- 100) 3 \<and> shr (- 100) (- 3) = shl (- 100) 3 \<and>
   shl (- 100) (- 3) = - 13 \<and> shl (- 100) 3 = - 800"
proof -
  have h: "- 16 \<le> sint (3 :: Word16)" "sint (3 :: Word16) \<le> 16" by simp_all
  have v1: "shr (- 100) 3 = - 13" by code_simp
  have v2: "shl (- 100) 3 = - 800" by code_simp
  show ?thesis using shl_shr_symmetry [OF h, of "- 100"] v1 v2 by simp
qed

text \<open>
  C9. For \<open>0 \<le> var1 < var2\<close>, \<open>div_s\<close> returns the quotient
  \<open>var1 * 32768 / var2\<close> cut off, not rounded. No call of \<open>L_sub\<close> or \<open>add\<close> in its
  loop saturates: the globals come back as they went in, also where
  \<open>overflow_warning_enable\<close> is set and every saturation would be counted.
\<close>

theorem div_s_truncated_quotient:
  assumes "0 \<le> sint var1" "sint var1 < sint var2"
  shows "\<exists>w. div_s var1 var2 g = Some (w, g) \<and> sint w = (sint var1 * 32768) div sint var2"
  using assms by (rule div_s_quotient)

theorem div_s_truncated_quotient_witness:
  "0 \<le> sint (32766 :: Word16) \<and> sint (32766 :: Word16) < sint (32767 :: Word16) \<and>
   overflow_warning_enable basop_init \<noteq> 0 \<and>
   (\<exists>w. div_s 32766 32767 basop_init = Some (w, basop_init) \<and> sint w = 32766)"
  using div_s_truncated_quotient [of 32766 32767 basop_init]
  by (simp add: basop_init_def)

text \<open>
  C5, as the code has it. \<open>norm_s(0) = 0\<close> and \<open>norm_s(-1) = 15\<close>. For every
  \<open>v\<close> other than 0, \<open>norm_s(v)\<close> returns, and in \<open>shl(v, norm_s(v))\<close> bit 14 is
  the opposite of the sign bit: set, with bit 15 clear, for positive \<open>v\<close>; clear,
  with bit 15 set, for negative \<open>v\<close>.
\<close>

theorem norm_s_normalized:
  "norm_s 0 = Some 0 \<and> norm_s (- 1) = Some 15 \<and>
   (v \<noteq> 0 \<longrightarrow>
      (\<exists>n. norm_s v = Some n \<and> bit (shl v n) 14 = (0 <s v) \<and> bit (shl v n) 15 = (v <s 0)))"
proof -
  have "\<exists>n. norm_s v = Some n \<and> bit (shl v n) 14 = (0 <s v) \<and> bit (shl v n) 15 = (v <s 0)"
    if "v \<noteq> 0"
  proof -
    have "sint v \<noteq> 0" using that by (metis signed_eq_0_iff)
    then consider "0 < sint v" | "sint v < 0" "v \<noteq> - 1" | "v = - 1" by fastforce
    then show ?thesis
    proof cases
      case 1
      with norm_s_pos [of v] show ?thesis by (auto simp add: word_sless_alt)
    next
      case 2
      with norm_s_neg [of v] show ?thesis by (auto simp add: word_sless_alt)
    next
      case 3
      with norm_s_minus_1 show ?thesis by (auto simp add: word_sless_alt)
    qed
  qed
  moreover have "norm_s 0 = Some 0" "norm_s (- 1) = Some 15"
    by (simp_all add: norm_s_def)
  ultimately show ?thesis by blast
qed

theorem norm_s_normalized_witness:
  "(- 3 :: Word16) \<noteq> 0 \<and>
   (\<exists>n. norm_s (- 3) = Some n \<and> bit (shl (- 3) n) 14 = (0 <s (- 3 :: Word16))
        \<and> bit (shl (- 3) n) 15 = ((- 3 :: Word16) <s 0))"
  using norm_s_normalized [of "- 3"] by simp

text \<open>
  C5, as the specification states it: bit 14 of \<open>shl(v, norm_s(v))\<close> is set for every
  \<open>v\<close> other than 0. For \<open>v = -2\<close> it is clear: \<open>norm_s(-2) = 14\<close> and
  \<open>shl(-2, 14) = -32768\<close>.
\<close>

theorem norm_s_negative_bit14_clear:
  "(- 2 :: Word16) \<noteq> 0 \<and> norm_s (- 2) = Some 14 \<and> \<not> bit (shl (- 2) 14) 14"
  by code_simp

text \<open>
  C2, as the code has it. Whenever the mathematical result does not fit the target
  width, each of \<open>add\<close>, \<open>sub\<close>, \<open>shl\<close> and \<open>L_shl\<close> (for a left shift),
  \<open>L_add\<close>, \<open>L_sub\<close>, \<open>L_mac\<close>, \<open>L_msu\<close>, \<open>L_mac0\<close>, \<open>L_msu0\<close>, \<open>mac_r\<close> and
  \<open>msu_r\<close> returns the result clamped to the extreme of that width and raises an
  overflow indicator that is a local variable of the call (for the mac family: of the
  \<open>L_mult\<close>, \<open>L_add\<close> or \<open>L_sub\<close> inside) and is handed to \<open>BASOP_CHECK\<close>. The
  mathematical result of \<open>mac_r\<close> and \<open>msu_r\<close> is the accumulated value plus
  \<open>0x8000\<close>, divided by \<open>2 ^ 16\<close> and rounded down.

  The globals after the call are the globals before it, \<open>counted\<close> once for each
  indicator raised: where \<open>overflow_warning_enable\<close> is set, \<open>overflow_count\<close> has
  been incremented that many times, in 32-bit arithmetic, so that from 2147483647 it
  goes to -2147483648; nothing else is written. In particular the file-level flag
  \<open>Overflow\<close> has after the call the value it had before.
\<close>

theorem saturating_operators_clamp_and_report:
  "(\<not> fits16 (sint a + sint b) \<longrightarrow>
      sint (add a b) = clamp (sint a + sint b) (- 32768) 32767 \<and>
      snd (saturate_loc (scast a + scast b)) \<and>
      add_globals a b g = counted 1 g) \<and>
   (\<not> fits16 (sint c - sint d) \<longrightarrow>
      sint (sub c d) = clamp (sint c - sint d) (- 32768) 32767 \<and>
      snd (saturate_loc (scast c - scast d)) \<and>
      sub_globals c d g = counted 1 g) \<and>
   (0 \<le> sint n \<and> \<not> fits16 (sint e * 2 ^ nat (sint n)) \<longrightarrow>
      sint (shl e n) = clamp (sint e * 2 ^ nat (sint n)) (- 32768) 32767 \<and>
      snd (shl_loc e n) \<and>
      shl_globals e n g = counted 1 g) \<and>
   (0 < sint k \<and> \<not> fits32 (sint L * 2 ^ nat (sint k)) \<longrightarrow>
      sint (L_shl L k) = clamp (sint L * 2 ^ nat (sint k)) (- 2147483648) 2147483647 \<and>
      snd (L_shl_loc L k) \<and>
      L_shl_globals L k g = counted 1 g) \<and>
   (\<not> fits32 (sint P + sint Q) \<longrightarrow>
      sint (L_add P Q) = clamp (sint P + sint Q) (- 2147483648) 2147483647 \<and>
      snd (L_add_loc P Q) \<and>
      L_add_globals P Q g = counted 1 g) \<and>
   (\<not> fits32 (sint R - sint S) \<longrightarrow>
      sint (L_sub R S) = clamp (sint R - sint S) (- 2147483648) 2147483647 \<and>
      snd (L_sub_loc R S) \<and>
      L_sub_globals R S g = counted 1 g) \<and>
   (\<not> fits32 (sint T + 2 * (sint u * sint v)) \<longrightarrow>
      sint (L_mac T u v) = clamp (sint T + 2 * (sint u * sint v)) (- 2147483648) 2147483647 \<and>
      (snd (L_mult_loc u v) \<or> snd (L_add_loc T (L_mult u v))) \<and>
      L_mac_globals T u v g =
        counted (of_bool (snd (L_mult_loc u v)) + of_bool (snd (L_add_loc T (L_mult u v)))) g) \<and>
   (\<not> fits32 (sint W - 2 * (sint x * sint y)) \<longrightarrow>
      sint (L_msu W x y) = clamp (sint W - 2 * (sint x * sint y)) (- 2147483648) 2147483647 \<and>
      (snd (L_mult_loc x y) \<or> snd (L_sub_loc W (L_mult x y))) \<and>
      L_msu_globals W x y g =
        counted (of_bool (snd (L_mult_loc x y)) + of_bool (snd (L_sub_loc W (L_mult x y)))) g) \<and>
   (\<not> fits32 (sint F + sint p * sint q) \<longrightarrow>
      sint (L_mac0 F p q) = clamp (sint F + sint p * sint q) (- 2147483648) 2147483647 \<and>
      snd (L_add_loc F (L_mult0 p q)) \<and>
      L_mac0_globals F p q g = counted 1 g) \<and>
   (\<not> fits32 (sint G - sint r * sint s) \<longrightarrow>
      sint (L_msu0 G r s) = clamp (sint G - sint r * sint s) (- 2147483648) 2147483647 \<and>
      snd (L_sub_loc G (L_mult0 r s)) \<and>
      L_msu0_globals G r s g = counted 1 g) \<and>
   (\<not> fits16 ((sint H + 2 * (sint i * sint j) + 32768) div 65536) \<longrightarrow>
      sint (mac_r H i j) =
        clamp ((sint H + 2 * (sint i * sint j) + 32768) div 65536) (- 32768) 32767 \<and>
      (snd (L_mult_loc i j) \<or> snd (L_add_loc H (L_mult i j))
         \<or> snd (L_add_loc (L_mac H i j) 0x00008000)) \<and>
      mac_r_globals H i j g =
        counted (of_bool (snd (L_mult_loc i j)) + of_bool (snd (L_add_loc H (L_mult i j)))
                 + of_bool (snd (L_add_loc (L_mac H i j) 0x00008000))) g) \<and>
   (\<not> fits16 ((sint K - 2 * (sint l * sint m) + 32768) div 65536) \<longrightarrow>
      sint (msu_r K l m) =
        clamp ((sint K - 2 * (sint l * sint m) + 32768) div 65536) (- 32768) 32767 \<and>
      (snd (L_mult_loc l m) \<or> snd (L_sub_loc K (L_mult l m))
         \<or> snd (L_add_loc (L_msu K l m) 0x00008000)) \<and>
      msu_r_globals K l m g =
        counted (of_bool (snd (L_mult_loc l m)) + of_bool (snd (L_sub_loc K (L_mult l m)))
                 + of_bool (snd (L_add_loc (L_msu K l m) 0x00008000))) g) \<and>
   Overflow (counted N g) = Overflow g \<and>
   overflow_count (counted N g) =
     (if overflow_warning_enable g \<noteq> 0 then overflow_count g + word_of_nat N
      else overflow_count g)"
proof -
  have c1: "\<not> fits16 (sint a + sint b) \<Longrightarrow>
      sint (add a b) = clamp (sint a + sint b) (- 32768) 32767 \<and>
      snd (saturate_loc (scast a + scast b)) \<and>
      add_globals a b g = counted 1 g"
    by (intro conjI add_saturates)
  have c2: "\<not> fits16 (sint c - sint d) \<Longrightarrow>
      sint (sub c d) = clamp (sint c - sint d) (- 32768) 32767 \<and>
      snd (saturate_loc (scast c - scast d)) \<and>
      sub_globals c d g = counted 1 g"
    by (intro conjI sub_saturates)
  have c3: "0 \<le> sint n \<Longrightarrow> \<not> fits16 (sint e * 2 ^ nat (sint n)) \<Longrightarrow>
      sint (shl e n) = clamp (sint e * 2 ^ nat (sint n)) (- 32768) 32767 \<and>
      snd (shl_loc e n) \<and>
      shl_globals e n g = counted 1 g"
    by (intro conjI shl_saturates)
  have c4: "0 < sint k \<Longrightarrow> \<not> fits32 (sint L * 2 ^ nat (sint k)) \<Longrightarrow>
      sint (L_shl L k) = clamp (sint L * 2 ^ nat (sint k)) (- 2147483648) 2147483647 \<and>
      snd (L_shl_loc L k) \<and>
      L_shl_globals L k g = counted 1 g"
    by (intro conjI L_shl_saturates)
  have c5: "\<not> fits32 (sint P + sint Q) \<Longrightarrow>
      sint (L_add P Q) = clamp (sint P + sint Q) (- 2147483648) 2147483647 \<and>
      snd (L_add_loc P Q) \<and>
      L_add_globals P Q g = counted 1 g"
    by (intro conjI L_add_saturates)
  have c6: "\<not> fits32 (sint R - sint S) \<Longrightarrow>
      sint (L_sub R S) = clamp (sint R - sint S) (- 2147483648) 2147483647 \<and>
      snd (L_sub_loc R S) \<and>
      L_sub_globals R S g = counted 1 g"
    by (intro conjI L_sub_saturates)
  have c7: "\<not> fits32 (sint T + 2 * (sint u * sint v)) \<Longrightarrow>
      sint (L_mac T u v) = clamp (sint T + 2 * (sint u * sint v)) (- 2147483648) 2147483647 \<and>
      (snd (L_mult_loc u v) \<or> snd (L_add_loc T (L_mult u v))) \<and>
      L_mac_globals T u v g =
        counted (of_bool (snd (L_mult_loc u v)) + of_bool (snd (L_add_loc T (L_mult u v)))) g"
    by (intro conjI L_mac_saturates L_mac_globals_counted)
  have c8: "\<not> fits32 (sint W - 2 * (sint x * sint y)) \<Longrightarrow>
      sint (L_msu W x y) = clamp (sint W - 2 * (sint x * sint y)) (- 2147483648) 2147483647 \<and>
      (snd (L_mult_loc x y) \<or> snd (L_sub_loc W (L_mult x y))) \<and>
      L_msu_globals W x y g =
        counted (of_bool (snd (L_mult_loc x y)) + of_bool (snd (L_sub_loc W (L_mult x y)))) g"
    by (intro conjI L_msu_saturates L_msu_globals_counted)
  have c9: "\<not> fits32 (sint F + sint p * sint q) \<Longrightarrow>
      sint (L_mac0 F p q) = clamp (sint F + sint p * sint q) (- 2147483648) 2147483647 \<and>
      snd (L_add_loc F (L_mult0 p q)) \<and>
      L_mac0_globals F p q g = counted 1 g"
    by (intro conjI L_mac0_saturates L_mac0_counts)
  have c10: "\<not> fits32 (sint G - sint r * sint s) \<Longrightarrow>
      sint (L_msu0 G r s) = clamp (sint G - sint r * sint s) (- 2147483648) 2147483647 \<and>
      snd (L_sub_loc G (L_mult0 r s)) \<and>
      L_msu0_globals G r s g = counted 1 g"
    by (intro conjI L_msu0_saturates L_msu0_counts)
  have c11: "\<not> fits16 ((sint H + 2 * (sint i * sint j) + 32768) div 65536) \<Longrightarrow>
      sint (mac_r H i j) =
        clamp ((sint H + 2 * (sint i * sint j) + 32768) div 65536) (- 32768) 32767 \<and>
      (snd (L_mult_loc i j) \<or> snd (L_add_loc H (L_mult i j))
         \<or> snd (L_add_loc (L_mac H i j) 0x00008000)) \<and>
      mac_r_globals H i j g =
        counted (of_bool (snd (L_mult_loc i j)) + of_bool (snd (L_add_loc H (L_mult i j)))
                 + of_bool (snd (L_add_loc (L_mac H i j) 0x00008000))) g"
    by (intro conjI mac_r_saturates mac_r_globals_counted)
  have c12: "\<not> fits16 ((sint K - 2 * (sint l * sint m) + 32768) div 65536) \<Longrightarrow>
      sint (msu_r K l m) =
        clamp ((sint K - 2 * (sint l * sint m) + 32768) div 65536) (- 32768) 32767 \<and>
      (snd (L_mult_loc l m) \<or> snd (L_sub_loc K (L_mult l m))
         \<or> snd (L_add_loc (L_msu K l m) 0x00008000)) \<and>
      msu_r_globals K l m g =
        counted (of_bool (snd (L_mult_loc l m)) + of_bool (snd (L_sub_loc K (L_mult l m)))
                 + of_bool (snd (L_add_loc (L_msu K l m) 0x00008000))) g"
    by (intro conjI msu_r_saturates msu_r_globals_counted)
  have c13: "Overflow (counted N g) = Overflow g"
    by (rule counted_fields)
  have c14: "overflow_count (counted N g) =
     (if overflow_warning_enable g \<noteq> 0 then overflow_count g + word_of_nat N
      else overflow_count g)"
    by (rule counted_fields)
  from c1 c2 c3 c4 c5 c6 c7 c8 c9 c10 c11 c12 c13 c14 show ?thesis
    by blast
qed

text \<open>
  At the extremes: once with the counter at 0, where the calls count 1, 2 (\<open>L_mac\<close> with
  both indicators raised) and 3 (\<open>mac_r\<close> with all three), and, for \<open>add\<close>, once with
  the counter at 2147483647.
\<close>

theorem saturating_operators_clamp_and_report_witness:
  "\<not> fits16 (sint (32767 :: Word16) + sint (1 :: Word16)) \<and>
   sint (add 32767 1) = 32767 \<and>
   add_globals 32767 1 basop_init = counted 1 basop_init \<and>
   overflow_count (add_globals 32767 1 basop_init) = 1 \<and>
   sint (overflow_count (add_globals 32767 1 (basop_init\<lparr>overflow_count := 2147483647\<rparr>)))
     = - 2147483648 \<and>
   \<not> fits16 (sint (- 32768 :: Word16) - sint (1 :: Word16)) \<and>
   sint (sub (- 32768) 1) = - 32768 \<and>
   0 \<le> sint (15 :: Word16) \<and> \<not> fits16 (sint (1 :: Word16) * 2 ^ nat (sint (15 :: Word16))) \<and>
   sint (shl 1 15) = 32767 \<and>
   0 < sint (31 :: Word16) \<and> \<not> fits32 (sint (1 :: Word32) * 2 ^ nat (sint (31 :: Word16))) \<and>
   sint (L_shl 1 31) = 2147483647 \<and>
   \<not> fits32 (sint (2147483647 :: Word32) + sint (1 :: Word32)) \<and>
   sint (L_add 2147483647 1) = 2147483647 \<and>
   \<not> fits32 (sint (- 2147483648 :: Word32) - sint (1 :: Word32)) \<and>
   sint (L_sub (- 2147483648) 1) = - 2147483648 \<and>
   \<not> fits32 (sint (1 :: Word32) + 2 * (sint (- 32768 :: Word16) * sint (- 32768 :: Word16))) \<and>
   sint (L_mac 1 (- 32768) (- 32768)) = 2147483647 \<and>
   overflow_count (L_mac_globals 1 (- 32768) (- 32768) basop_init) = 2 \<and>
   \<not> fits32 (sint (- 2147483648 :: Word32) - 2 * (sint (1 :: Word16) * sint (1 :: Word16))) \<and>
   sint (L_msu (- 2147483648) 1 1) = - 2147483648 \<and>
   overflow_count (L_msu_globals (- 2147483648) 1 1 basop_init) = 1 \<and>
   \<not> fits32 (sint (2147483647 :: Word32) + sint (1 :: Word16) * sint (1 :: Word16)) \<and>
   sint (L_mac0 2147483647 1 1) = 2147483647 \<and>
   \<not> fits32 (sint (- 2147483648 :: Word32) - sint (1 :: Word16) * sint (1 :: Word16)) \<and>
   sint (L_msu0 (- 2147483648) 1 1) = - 2147483648 \<and>
   \<not> fits16 ((sint (1 :: Word32) + 2 * (sint (- 32768 :: Word16) * sint (- 32768 :: Word16)) + 32768)
      div 65536) \<and>
   sint (mac_r 1 (- 32768) (- 32768)) = 32767 \<and>
   overflow_count (mac_r_globals 1 (- 32768) (- 32768) basop_init) = 3 \<and>
   \<not> fits16 ((sint (2147483647 :: Word32) - 2 * (sint (1 :: Word16) * sint (- 1 :: Word16)) + 32768)
      div 65536) \<and>
   sint (msu_r 2147483647 1 (- 1)) = 32767 \<and>
   Overflow (counted 3 basop_init) = Overflow basop_init"
proof -
  have f1: "snd (L_mult_loc (- 32768) (- 32768))" by code_simp
  have f2: "snd (L_add_loc 1 (L_mult (- 32768) (- 32768)))" by code_simp
  have f3: "snd (L_add_loc (L_mac 1 (- 32768) (- 32768)) 0x00008000)" by code_simp
  have f4: "\<not> snd (L_mult_loc 1 1)" by code_simp
  have f5: "snd (L_sub_loc (- 2147483648) (L_mult 1 1))" by code_simp
  have en: "overflow_warning_enable basop_init \<noteq> 0" "overflow_count basop_init = 0"
    by (simp_all add: basop_init_def)
  note t = saturating_operators_clamp_and_report
    [where a = 32767 and b = 1 and c = "- 32768" and d = 1 and e = 1 and n = 15
       and L = 1 and k = 31 and P = 2147483647 and Q = 1 and R = "- 2147483648" and S = 1
       and T = 1 and u = "- 32768" and v = "- 32768" and W = "- 2147483648" and x = 1 and y = 1
       and F = 2147483647 and p = 1 and q = 1 and G = "- 2147483648" and r = 1 and s = 1
       and H = 1 and i = "- 32768" and j = "- 32768" and K = 2147483647 and l = 1 and m = "- 1"
       and N = 3]
  have top: "sint (overflow_count (add_globals 32767 1 (basop_init\<lparr>overflow_count := 2147483647\<rparr>)))
     = - 2147483648"
    using t [where g = "basop_init\<lparr>overflow_count := 2147483647\<rparr>"]
    by (simp add: fits16_def counted_def basop_init_def)
  show ?thesis
    using t [where g = basop_init] top f1 f2 f3 f4 f5 en
    by (simp add: fits16_def fits32_def clamp_def counted_def)
qed

text \<open>
  C2, as the specification states it: after a call that saturated, the overflow flag is
  set. \<open>add(32767, 1)\<close> saturates to 32767, and the flag \<open>Overflow\<close>, 0 before the
  call, is 0 after it.
\<close>

theorem add_saturates_flag_clear:
  "\<not> fits16 (sint (32767 :: Word16) + sint (1 :: Word16)) \<and>
   add 32767 1 = MAX_16 \<and>
   Overflow basop_init = 0 \<and>
   Overflow (add_globals 32767 1 basop_init) = 0"
  by code_simp

text \<open>
  C7, as the code has it. Attack handling is enabled, the call returns, and there is at
  least one block. Lines 39 to 47 bring the stored accumulated energy to the new scaling
  (\<open>L_shl\<close> by twice the change of the scaling; no change where the scaling
  stays), and each of the \<open>attdec_nblocks\<close> blocks then takes it down by 2 bits at
  most. The accumulated energy stored at the end is therefore at least the rescaled
  stored value shifted right arithmetically by \<open>2 * attdec_nblocks\<close> bits, which for
  signed integers is the division by \<open>4 ^ attdec_nblocks\<close> rounded down; where the
  scaling stays, it is at least the value stored before the call shifted by that much.
  It is also at least the raw energy of the last block, which the call leaves in
  \<open>block_energy\<close>.
\<close>

theorem attdec_energy_envelope:
  assumes "attack_handling (setup' m) \<noteq> 0"
    and "attack_detector_fx H input_scaling m = Some m'"
    and "0 < sint (attdec_nblocks (enc m))"
  shows "\<exists>new_scaling e.
      map_option fst (attdec_new_scaling H input_scaling m) = Some new_scaling \<and>
      rd_block (block_energy m') (sint (attdec_nblocks (enc m)) - 1) = Some e \<and>
      attdec_acc_energy (setup' (attdec_rescale new_scaling m)) =
        (if sub new_scaling (attdec_scaling (setup' m)) \<noteq> 0
         then L_shl (attdec_acc_energy (setup' m))
                (shl (sub new_scaling (attdec_scaling (setup' m))) 1)
         else attdec_acc_energy (setup' m)) \<and>
      sint (attdec_acc_energy (setup' (attdec_rescale new_scaling m)))
          div 4 ^ nat (sint (attdec_nblocks (enc m)))
        \<le> sint (attdec_acc_energy (setup' m')) \<and>
      (new_scaling = attdec_scaling (setup' m) \<longrightarrow>
         sint (attdec_acc_energy (setup' m)) div 4 ^ nat (sint (attdec_nblocks (enc m)))
           \<le> sint (attdec_acc_energy (setup' m'))) \<and>
      sint e \<le> sint (attdec_acc_energy (setup' m'))"
proof -
  from attdec_envelope [OF assms] obtain new_scaling e where
    r: "map_option fst (attdec_new_scaling H input_scaling m) = Some new_scaling"
      "rd_block (block_energy m') (sint (attdec_nblocks (enc m)) - 1) = Some e"
      "sint (attdec_acc_energy (setup' (attdec_rescale new_scaling m)))
          div 4 ^ nat (sint (attdec_nblocks (enc m)))
        \<le> sint (attdec_acc_energy (setup' m'))"
      "sint e \<le> sint (attdec_acc_energy (setup' m'))"
    by blast
  have "sint (attdec_acc_energy (setup' m)) div 4 ^ nat (sint (attdec_nblocks (enc m)))
           \<le> sint (attdec_acc_energy (setup' m'))"
    if "new_scaling = attdec_scaling (setup' m)"
    using r(3) unfolding that acc_rescale_same .
  with r acc_rescale [of new_scaling m] show ?thesis by blast
qed

text \<open>
  On the silent frame of four blocks the bound is met with equality: the scaling stays
  at 1, and the stored value goes from 1024 to \<open>1024 div 4 ^ 4 = 4\<close>.
\<close>

theorem attdec_energy_envelope_witness:
  "attack_handling (setup' quiet_mem) \<noteq> 0 \<and>
   0 < sint (attdec_nblocks (enc quiet_mem)) \<and>
   (\<exists>m' e.
      attack_detector_fx sample_helpers 0 quiet_mem = Some m' \<and>
      map_option fst (attdec_new_scaling sample_helpers 0 quiet_mem)
        = Some (attdec_scaling (setup' quiet_mem)) \<and>
      rd_block (block_energy m') 3 = Some e \<and>
      sint (attdec_acc_energy (setup' quiet_mem)) div 4 ^ 4
        \<le> sint (attdec_acc_energy (setup' m')) \<and>
      sint e \<le> sint (attdec_acc_energy (setup' m')) \<and>
      sint (attdec_acc_energy (setup' quiet_mem)) div 4 ^ 4 = 4 \<and>
      sint (attdec_acc_energy (setup' m')) = 4)"
proof -
  obtain m' where r: "attack_detector_fx sample_helpers 0 quiet_mem = Some m'"
    and v: "sint (attdec_acc_energy (setup' m')) = 4"
    using quiet_run by auto
  have h1: "attack_handling (setup' quiet_mem) \<noteq> 0"
    and h3: "0 < sint (attdec_nblocks (enc quiet_mem))"
    and n: "sint (attdec_nblocks (enc quiet_mem)) = 4"
    and s: "attdec_scaling (setup' quiet_mem) = 1"
    and a: "sint (attdec_acc_energy (setup' quiet_mem)) = 1024"
    by (simp_all add: quiet_mem_def)
  from attdec_energy_envelope [OF h1 r h3] obtain new_scaling e where
    e: "map_option fst (attdec_new_scaling sample_helpers 0 quiet_mem) = Some new_scaling"
      "rd_block (block_energy m') (sint (attdec_nblocks (enc quiet_mem)) - 1) = Some e"
      "new_scaling = attdec_scaling (setup' quiet_mem) \<longrightarrow>
         sint (attdec_acc_energy (setup' quiet_mem)) div 4 ^ nat (sint (attdec_nblocks (enc quiet_mem)))
           \<le> sint (attdec_acc_energy (setup' m'))"
      "sint e \<le> sint (attdec_acc_energy (setup' m'))"
    by blast
  from e(1) quiet_new_scaling have ns: "new_scaling = attdec_scaling (setup' quiet_mem)"
    by (simp add: s)
  have "rd_block (block_energy m') 3 = Some e" using e(2) by (simp add: n)
  moreover have "sint (attdec_acc_energy (setup' quiet_mem)) div 4 ^ 4
      \<le> sint (attdec_acc_energy (setup' m'))"
    using e(3) ns by (simp add: n)
  moreover have "map_option fst (attdec_new_scaling sample_helpers 0 quiet_mem)
      = Some (attdec_scaling (setup' quiet_mem))"
    using e(1) ns by simp
  moreover have "sint (attdec_acc_energy (setup' quiet_mem)) div 4 ^ 4 = 4"
    by (simp add: a)
  ultimately show ?thesis
    using r v h1 h3 e(4) by blast
qed

text \<open>
  C7, as the specification states it, with the previous accumulated energy the one
  stored before the call. On the silent frame the scaling stays at 1 and the stored
  value goes from 1024 to 4, one shift by 2 bits for each of the four blocks; 4 is below
  1024 shifted by 2 bits.
\<close>

theorem attdec_energy_below_quarter:
  "attack_handling (setup' quiet_mem) \<noteq> 0 \<and>
   attdec_scaling (setup' quiet_mem) = 1 \<and>
   sint (signed_drop_bit 2 (attdec_acc_energy (setup' quiet_mem))) = 256 \<and>
   map_option (\<lambda>m. (attdec_scaling (setup' m), sint (attdec_acc_energy (setup' m))))
     (attack_detector_fx sample_helpers 0 quiet_mem) = Some (1, 4)"
proof -
  have "attack_handling (setup' quiet_mem) \<noteq> 0"
    and "attdec_scaling (setup' quiet_mem) = 1"
    and "sint (signed_drop_bit 2 (attdec_acc_energy (setup' quiet_mem))) = 256"
    by (simp_all add: quiet_mem_def)
  with quiet_run show ?thesis by simp
qed

text \<open>
  C8. When \<open>attack_handling\<close> is zero the call returns and leaves the two structures,
  the input frame and the scratch buffer as they were: the persistent detector state
  (scaling, filter memory, accumulated energy, detected flag, position) and everything
  else. What is left of the call is \<open>i_mult(enc->attdec_nblocks, 40)\<close>, which is
  evaluated before the test; the memory comes back with the diagnostics of basop32.c as
  that call leaves them, which is as they were whenever \<open>40 * attdec_nblocks\<close> fits
  16 bits.
\<close>

theorem attack_handling_off_no_op:
  assumes "attack_handling (setup' m) = 0"
  shows "attack_detector_fx H input_scaling m =
       Some (m\<lparr>globals := i_mult_globals (attdec_nblocks (enc m)) 40 (globals m)\<rparr>) \<and>
     (fits16 (sint (attdec_nblocks (enc m)) * 40) \<longrightarrow>
        attack_detector_fx H input_scaling m = Some m)"
proof -
  have a: "attack_detector_fx H input_scaling m =
       Some (m\<lparr>globals := i_mult_globals (attdec_nblocks (enc m)) 40 (globals m)\<rparr>)"
    using assms by (simp add: attack_detector_fx_off basop_calls_def)
  have "attack_detector_fx H input_scaling m = Some m"
    if "fits16 (sint (attdec_nblocks (enc m)) * 40)"
  proof -
    from that have "fits16 (sint (attdec_nblocks (enc m)) * sint (40 :: Word16))" by simp
    then have "i_mult_globals (attdec_nblocks (enc m)) 40 (globals m) = globals m"
      by (rule i_mult_globals_fit)
    with a show ?thesis by simp
  qed
  with a show ?thesis by blast
qed

theorem attack_handling_off_no_op_witness:
  "attack_handling (setup' sample_mem_off) = 0 \<and>
   fits16 (sint (attdec_nblocks (enc sample_mem_off)) * 40) \<and>
   attack_detector_fx sample_helpers 0 sample_mem_off = Some sample_mem_off"
proof -
  have h: "attack_handling (setup' sample_mem_off) = 0"
    and f: "fits16 (sint (attdec_nblocks (enc sample_mem_off)) * 40)"
    by (simp_all add: sample_mem_off_def sample_mem_def fits16_def)
  from attack_handling_off_no_op [OF h, of sample_helpers 0] f
  have "attack_detector_fx sample_helpers 0 sample_mem_off = Some sample_mem_off"
    by blast
  with h f show ?thesis by blast
qed

text \<open>
  C10, as the code has it. A call that returns has left \<open>LC3_Enc\<close> and the input
  frame as they were, and in \<open>EncSetup\<close> it can have changed only \<open>attdec_scaling\<close>,
  \<open>attdec_filter_mem\<close>, \<open>attdec_acc_energy\<close>, \<open>attdec_detected\<close> and
  \<open>attdec_position\<close>. Besides these and the scratch buffer it writes one more
  location: the counter \<open>overflow_count\<close> of basop32.c, through \<open>BASOP_CHECK\<close> in
  the operators it calls. Where the helpers that are not in the sources write no other
  file-level variable of basop32.c, the call writes no other either.
\<close>

theorem attack_detector_writes_only_state:
  assumes "attack_detector_fx H input_scaling m = Some m'"
    and "helpers_count_only H"
  shows "enc m' = enc m \<and> input m' = input m \<and>
     setup' m' = (setup' m)
       \<lparr>attdec_scaling := attdec_scaling (setup' m'),
        attdec_filter_mem := attdec_filter_mem (setup' m'),
        attdec_acc_energy := attdec_acc_energy (setup' m'),
        attdec_detected := attdec_detected (setup' m'),
        attdec_position := attdec_position (setup' m')\<rparr> \<and>
     globals m' = (globals m)\<lparr>overflow_count := overflow_count (globals m')\<rparr>"
proof -
  have f: "attdec_frame m m'" using assms(1) by (rule attdec_frame_detector)
  then have "setup' m' = (setup' m)
       \<lparr>attdec_scaling := attdec_scaling (setup' m'),
        attdec_filter_mem := attdec_filter_mem (setup' m'),
        attdec_acc_energy := attdec_acc_energy (setup' m'),
        attdec_detected := attdec_detected (setup' m'),
        attdec_position := attdec_position (setup' m')\<rparr>"
    by (intro EncSetup.equality) (simp_all add: attdec_frame_def)
  moreover have "attdec_counts m m'" using assms by (rule counts_detector)
  then have "globals m' = (globals m)\<lparr>overflow_count := overflow_count (globals m')\<rparr>"
    by (simp add: attdec_counts_def counter_only_def)
  ultimately show ?thesis using f by (simp add: attdec_frame_def)
qed

theorem attack_detector_writes_only_state_witness:
  "helpers_count_only loud_helpers \<and>
   (\<exists>m'. attack_detector_fx loud_helpers 0 loud_mem = Some m' \<and>
     enc m' = enc loud_mem \<and> input m' = input loud_mem \<and>
     setup' m' = (setup' loud_mem)
       \<lparr>attdec_scaling := - 2, attdec_filter_mem := (8190, - 8192),
        attdec_acc_energy := 2147483647,
        attdec_detected := 1, attdec_position := 0\<rparr> \<and>
     globals m' = (globals loud_mem)\<lparr>overflow_count := 24\<rparr>)"
proof -
  obtain m' where r: "attack_detector_fx loud_helpers 0 loud_mem = Some m'"
    and v: "sint (attdec_scaling (setup' m')) = - 2" "attdec_filter_mem (setup' m') = (8190, - 8192)"
      "sint (attdec_acc_energy (setup' m')) = 2147483647"
      "attdec_detected (setup' m') = 1" "attdec_position (setup' m') = 0"
      "overflow_count (globals m') = 24"
    using loud_run by auto
  from v(1) have "sint (attdec_scaling (setup' m')) = sint (- 2 :: Word16)" by simp
  then have s: "attdec_scaling (setup' m') = - 2" by (rule signed_word_eqI)
  from v(3) have "sint (attdec_acc_energy (setup' m')) = sint (2147483647 :: Word32)" by simp
  then have a: "attdec_acc_energy (setup' m') = 2147483647" by (rule signed_word_eqI)
  from attack_detector_writes_only_state [OF r loud_helpers_count_only] r v s a
  show ?thesis
    using loud_helpers_count_only by simp
qed

text \<open>
  C10, as the specification states it: the five fields and the scratch buffer are the
  only locations written. On the loud frame the counter \<open>overflow_count\<close>, 0 before
  the call, is 24 after it: the sum of the squares in \<open>block_energy[0]\<close> passes
  2147483647 at the 17th of the 40 samples, and \<open>L_mac\<close> saturates from there on.
\<close>

theorem attack_detector_counts_overflows:
  "attack_handling (setup' loud_mem) \<noteq> 0 \<and>
   helpers_count_only loud_helpers \<and>
   overflow_count (globals loud_mem) = 0 \<and>
   map_option (\<lambda>m. overflow_count (globals m)) (attack_detector_fx loud_helpers 0 loud_mem)
     = Some 24"
proof -
  have "attack_handling (setup' loud_mem) \<noteq> 0"
    and "overflow_count (globals loud_mem) = 0"
    by (simp_all add: loud_mem_def basop_init_def)
  moreover have "map_option (\<lambda>m. overflow_count (globals m))
      (attack_detector_fx loud_helpers 0 loud_mem) = Some 24"
    using loud_run by auto
  ultimately show ?thesis using loud_helpers_count_only by simp
qed

end
